theory Spec2Isabelle
  imports Complex_Main "HOL-Library.Log_Nat"
begin

section \<open>Python numbers\<close>

text \<open>
  The program is a Python script. Its quantities are Python \<open>int\<close>s (unbounded) and
  \<open>float\<close>s (IEEE 754 binary64, round to nearest, ties to even). A finite float is
  modelled by its exact rational value; both zeros, both infinities and NaN are values
  of the type, and every operation rounds its exact result.
\<close>

datatype py_error = OverflowError | ZeroDivisionError | IndexError | KeyError

datatype double = Finite rat | NegZero | Infinite bool | NaN

text \<open>
  \<open>Finite x\<close> is the float of value \<open>x\<close> (\<open>Finite 0\<close> is \<open>0.0\<close>), \<open>NegZero\<close> is \<open>-0.0\<close>,
  \<open>Infinite s\<close> is the infinity of sign \<open>s\<close> (\<open>True\<close> for negative).
\<close>

datatype pynum = PyInt int | PyFloat double

definition bind_err :: "'e + 'a \<Rightarrow> ('a \<Rightarrow> 'e + 'b) \<Rightarrow> 'e + 'b" where
  "bind_err m f = (case m of Inl e \<Rightarrow> Inl e | Inr x \<Rightarrow> f x)"

text \<open>\<open>ilog2 x\<close> is the binary exponent of a positive rational: \<open>2 powi ilog2 x \<le> x < 2 powi (ilog2 x + 1)\<close>.\<close>

definition ilog2 :: "rat \<Rightarrow> int" where
  "ilog2 x = (if 1 \<le> x then bitlen \<lfloor>x\<rfloor> - 1 else - bitlen (\<lceil>1 / x\<rceil> - 1))"

definition round_half_even :: "rat \<Rightarrow> int" where
  "round_half_even x =
     (let f = \<lfloor>x\<rfloor>; d = x - of_int f
      in if d < 1 / 2 then f else if 1 / 2 < d then f + 1 else if even f then f else f + 1)"

text \<open>
  The exponent of the last place of a binary64 number of magnitude \<open>x\<close>: 53 significant
  bits, and the fixed spacing \<open>2 powi (- 1074)\<close> of the subnormal numbers below
  \<open>2 powi (- 1022)\<close>.
\<close>

definition quantum :: "rat \<Rightarrow> int" where
  "quantum x = max (ilog2 x) (- 1022) - 52"

text \<open>Rounding a magnitude \<open>x \<ge> 0\<close> to the nearest multiple of its last place, ties to even.\<close>

definition round_mag :: "rat \<Rightarrow> rat" where
  "round_mag x =
     (if x = 0 then 0
      else of_int (round_half_even (x / 2 powi quantum x)) * 2 powi quantum x)"

definition signed :: "bool \<Rightarrow> rat \<Rightarrow> rat" where
  "signed s x = (if s then - x else x)"

text \<open>
  The binary64 number of sign \<open>s\<close> nearest to the magnitude \<open>x\<close>: a rounded magnitude of
  \<open>2 ^ 1024\<close> or more is an infinity, and a zero keeps the sign.
\<close>

definition round_double :: "bool \<Rightarrow> rat \<Rightarrow> double" where
  "round_double s x =
     (let y = round_mag x
      in if 2 ^ 1024 \<le> y then Infinite s
         else if y = 0 then (if s then NegZero else Finite 0)
         else Finite (signed s y))"

text \<open>A float literal of the source text (\<open>0.5\<close>, \<open>14.375\<close>, \<open>0.05\<close>) is the nearest binary64 number.\<close>

definition float_lit :: "rat \<Rightarrow> double" where
  "float_lit r = round_double (r < 0) \<bar>r\<bar>"

text \<open>Converting an \<open>int\<close> operand to \<open>float\<close> raises \<open>OverflowError\<close> when it is out of range.\<close>

definition float_of_int :: "int \<Rightarrow> py_error + double" where
  "float_of_int n =
     (case round_double (n < 0) (of_int \<bar>n\<bar>) of
        Infinite s \<Rightarrow> Inl OverflowError
      | d \<Rightarrow> Inr d)"

definition py_float :: "pynum \<Rightarrow> py_error + double" where
  "py_float v = (case v of PyInt n \<Rightarrow> float_of_int n | PyFloat x \<Rightarrow> Inr x)"

definition is_inf :: "double \<Rightarrow> bool" where
  "is_inf a = (case a of Infinite s \<Rightarrow> True | _ \<Rightarrow> False)"

definition is_zero :: "double \<Rightarrow> bool" where
  "is_zero a = (a = Finite 0 \<or> a = NegZero)"

definition sign :: "double \<Rightarrow> bool" where
  "sign a = (case a of Finite x \<Rightarrow> x < 0 | NegZero \<Rightarrow> True | Infinite s \<Rightarrow> s | NaN \<Rightarrow> False)"

definition mag :: "double \<Rightarrow> rat" where
  "mag a = (case a of Finite x \<Rightarrow> \<bar>x\<bar> | _ \<Rightarrow> 0)"

definition fval :: "double \<Rightarrow> rat" where
  "fval a = (case a of Finite x \<Rightarrow> x | _ \<Rightarrow> 0)"

definition float_mul :: "double \<Rightarrow> double \<Rightarrow> double" where
  "float_mul a b =
     (if a = NaN \<or> b = NaN then NaN
      else if is_inf a \<or> is_inf b then
        (if is_zero a \<or> is_zero b then NaN else Infinite (sign a \<noteq> sign b))
      else round_double (sign a \<noteq> sign b) (mag a * mag b))"

text \<open>IEEE division by a divisor that is not zero.\<close>

definition ieee_div :: "double \<Rightarrow> double \<Rightarrow> double" where
  "ieee_div a b =
     (if a = NaN \<or> b = NaN then NaN
      else if is_inf a then (if is_inf b then NaN else Infinite (sign a \<noteq> sign b))
      else if is_inf b then round_double (sign a \<noteq> sign b) 0
      else round_double (sign a \<noteq> sign b) (mag a / mag b))"

text \<open>Python's \<open>/\<close> on floats raises \<open>ZeroDivisionError\<close> for a zero divisor.\<close>

definition float_truediv :: "double \<Rightarrow> double \<Rightarrow> py_error + double" where
  "float_truediv a b = (if is_zero b then Inl ZeroDivisionError else Inr (ieee_div a b))"

text \<open>Mixed arithmetic converts the \<open>int\<close> operand to \<open>float\<close> first.\<close>

definition int_mul_float :: "int \<Rightarrow> double \<Rightarrow> py_error + double" where
  "int_mul_float n b = bind_err (float_of_int n) (\<lambda>a. Inr (float_mul a b))"

definition float_mul_int :: "double \<Rightarrow> int \<Rightarrow> py_error + double" where
  "float_mul_int a n = bind_err (float_of_int n) (\<lambda>b. Inr (float_mul a b))"

definition float_mul_num :: "double \<Rightarrow> pynum \<Rightarrow> py_error + double" where
  "float_mul_num a v = bind_err (py_float v) (\<lambda>b. Inr (float_mul a b))"

definition float_div_int :: "double \<Rightarrow> int \<Rightarrow> py_error + double" where
  "float_div_int a n = bind_err (float_of_int n) (\<lambda>b. float_truediv a b)"

text \<open>Python's comparisons of floats: false on NaN, and \<open>-0.0 == 0.0\<close>.\<close>

fun float_le :: "double \<Rightarrow> double \<Rightarrow> bool" where
  "float_le NaN b = False"
| "float_le a NaN = False"
| "float_le (Infinite s) (Infinite t) = (s \<or> \<not> t)"
| "float_le (Infinite s) b = s"
| "float_le a (Infinite t) = (\<not> t)"
| "float_le a b = (fval a \<le> fval b)"

fun float_lt :: "double \<Rightarrow> double \<Rightarrow> bool" where
  "float_lt NaN b = False"
| "float_lt a NaN = False"
| "float_lt (Infinite s) (Infinite t) = (s \<and> \<not> t)"
| "float_lt (Infinite s) b = s"
| "float_lt a (Infinite t) = (\<not> t)"
| "float_lt a b = (fval a < fval b)"

definition float_eq :: "double \<Rightarrow> double \<Rightarrow> bool" where
  "float_eq a b = (float_le a b \<and> float_le b a)"

section \<open>Constants\<close>

definition CO2_INTENSITY_GLOBAL :: int where
  "CO2_INTENSITY_GLOBAL = 475"

datatype workload = Text | Image | Video

fun ENERGY_FACTORS :: "workload \<Rightarrow> double" where
  "ENERGY_FACTORS Text = float_lit (5 / 10)"
| "ENERGY_FACTORS Image = float_lit 5"
| "ENERGY_FACTORS Video = float_lit (14375 / 1000)"

section \<open>Sidebar: location and carbon intensity\<close>

text \<open>
  Strings are UTF-8 byte strings. Every entry of \<open>eu_countries\<close> is a flag, a space and
  the country's name. A flag is two regional indicator symbols, one for each letter of
  the country code: U+1F1E6 for A to U+1F1FF for Z, whose UTF-8 bytes are
  \<open>F0 9F 87 A6\<close> to \<open>F0 9F 87 BF\<close>. \<open>flag\<close> takes the last byte of each symbol.
\<close>

definition flag :: "char \<Rightarrow> char \<Rightarrow> string" where
  "flag a b = [CHR 0xF0, CHR 0x9F, CHR 0x87, a, CHR 0xF0, CHR 0x9F, CHR 0x87, b]"

definition eu_countries :: "string list" where
  "eu_countries =
    [flag (CHR 0xA6) (CHR 0xB9) @ '' Austria'',
     flag (CHR 0xA7) (CHR 0xAA) @ '' Belgium'',
     flag (CHR 0xA7) (CHR 0xAC) @ '' Bulgaria'',
     flag (CHR 0xAD) (CHR 0xB7) @ '' Croatia'',
     flag (CHR 0xA8) (CHR 0xBE) @ '' Cyprus'',
     flag (CHR 0xA8) (CHR 0xBF) @ '' Czech Republic'',
     flag (CHR 0xA9) (CHR 0xB0) @ '' Denmark'',
     flag (CHR 0xAA) (CHR 0xAA) @ '' Estonia'',
     flag (CHR 0xAB) (CHR 0xAE) @ '' Finland'',
     flag (CHR 0xAB) (CHR 0xB7) @ '' France'',
     flag (CHR 0xA9) (CHR 0xAA) @ '' Germany'',
     flag (CHR 0xAC) (CHR 0xB7) @ '' Greece'',
     flag (CHR 0xAD) (CHR 0xBA) @ '' Hungary'',
     flag (CHR 0xAE) (CHR 0xAA) @ '' Ireland'',
     flag (CHR 0xAE) (CHR 0xB9) @ '' Italy'',
     flag (CHR 0xB1) (CHR 0xBB) @ '' Latvia'',
     flag (CHR 0xB1) (CHR 0xB9) @ '' Lithuania'',
     flag (CHR 0xB1) (CHR 0xBA) @ '' Luxembourg'',
     flag (CHR 0xB2) (CHR 0xB9) @ '' Malta'',
     flag (CHR 0xB3) (CHR 0xB1) @ '' Netherlands'',
     flag (CHR 0xB5) (CHR 0xB1) @ '' Poland'',
     flag (CHR 0xB5) (CHR 0xB9) @ '' Portugal'',
     flag (CHR 0xB7) (CHR 0xB4) @ '' Romania'',
     flag (CHR 0xB8) (CHR 0xB0) @ '' Slovakia'',
     flag (CHR 0xB8) (CHR 0xAE) @ '' Slovenia'',
     flag (CHR 0xAA) (CHR 0xB8) @ '' Spain'',
     flag (CHR 0xB8) (CHR 0xAA) @ '' Sweden'']"

text \<open>\<open>s.split(" ", 1)\<close>: at most one split, at the first space.\<close>

fun split1 :: "string \<Rightarrow> string list" where
  "split1 s =
     (let a = takeWhile (\<lambda>c. c \<noteq> CHR '' '') s; b = dropWhile (\<lambda>c. c \<noteq> CHR '' '') s
      in case b of [] \<Rightarrow> [a] | _ # r \<Rightarrow> [a, r])"

text \<open>\<open>xs[1]\<close> raises \<open>IndexError\<close> on a list of fewer than two elements.\<close>

fun index1 :: "'a list \<Rightarrow> py_error + 'a" where
  "index1 (_ # y # _) = Inr y"
| "index1 _ = Inl IndexError"

text \<open>
  A dictionary is the list of its items in insertion order. Storing under a key that is
  present replaces the value in place; a new key goes last.
\<close>

fun dict_set :: "('k \<times> 'v) list \<Rightarrow> 'k \<Rightarrow> 'v \<Rightarrow> ('k \<times> 'v) list" where
  "dict_set [] k v = [(k, v)]"
| "dict_set ((k', v') # d) k v = (if k' = k then (k, v) # d else (k', v') # dict_set d k v)"

text \<open>The comprehension \<open>{k: f(k) for k in ks}\<close>, started from the dictionary \<open>d\<close>.\<close>

fun dict_comp :: "('k \<Rightarrow> py_error + 'v) \<Rightarrow> ('k \<times> 'v) list \<Rightarrow> 'k list \<Rightarrow> py_error + ('k \<times> 'v) list" where
  "dict_comp f d [] = Inr d"
| "dict_comp f d (k # ks) = bind_err (f k) (\<lambda>v. dict_comp f (dict_set d k v) ks)"

definition country_icon :: "py_error + (string \<times> string) list" where
  "country_icon = dict_comp (\<lambda>country. index1 (split1 country)) [] eu_countries"

definition default_intensity :: "py_error + (string \<times> int) list" where
  "default_intensity =
     bind_err country_icon (\<lambda>d. dict_comp (\<lambda>country. Inr 366) [] (map snd d))"

text \<open>\<open>country_name = country_icon[selected_country]\<close> raises \<open>KeyError\<close> for a key that is not present.\<close>

definition country_name_of :: "string \<Rightarrow> py_error + string" where
  "country_name_of selected_country =
     bind_err country_icon (\<lambda>d.
       case map_of d selected_country of None \<Rightarrow> Inl KeyError | Some name \<Rightarrow> Inr name)"

text \<open>\<open>default_intensity.get(country_name, CO2_INTENSITY_GLOBAL)\<close>\<close>

definition co2_default :: "string \<Rightarrow> py_error + int" where
  "co2_default country_name =
     bind_err default_intensity (\<lambda>d.
       Inr (case map_of d country_name of Some v \<Rightarrow> v | None \<Rightarrow> CO2_INTENSITY_GLOBAL))"

text \<open>
  The intensity used by the estimate. \<open>manual_override\<close> is \<open>Some v\<close> when the checkbox is
  ticked and the number input (minimum \<open>0.0\<close>) holds \<open>v\<close>, and \<open>None\<close> otherwise.
\<close>

definition CO2_INTENSITY :: "string \<Rightarrow> double option \<Rightarrow> py_error + pynum" where
  "CO2_INTENSITY country_name manual_override =
     bind_err (co2_default country_name) (\<lambda>d.
       case manual_override of
         Some v \<Rightarrow> Inr (PyFloat v)
       | None \<Rightarrow> Inr (PyInt d))"

section \<open>Impact estimate\<close>

record estimation_result =
  energy_wh :: double
  energy_kwh :: double
  emissions_g :: double
  co2_kg :: double
  m_driven :: double
  coal_burned :: double
  google_search_equiv :: double
  led_bulb_equiv :: double

text \<open>
  The block under \<open>if units > 0 and submit\<close>. \<open>None\<close> is the run in which nothing is
  rendered.
\<close>

definition estimate :: "workload \<Rightarrow> int \<Rightarrow> pynum \<Rightarrow> bool \<Rightarrow> py_error + estimation_result option" where
  "estimate workload_type units intensity submit =
     (if units > 0 \<and> submit then
        bind_err (int_mul_float units (ENERGY_FACTORS workload_type)) (\<lambda>e_wh.
        bind_err (float_div_int e_wh 1000) (\<lambda>e_kwh.
        bind_err (float_mul_num e_kwh intensity) (\<lambda>em_g.
        bind_err (float_div_int em_g 1000) (\<lambda>kg.
        bind_err (float_mul_int kg 4042) (\<lambda>m.
        bind_err (float_mul_int kg 500) (\<lambda>coal.
        bind_err (float_truediv em_g (float_lit (5 / 100))) (\<lambda>google.
        bind_err (float_div_int em_g 15) (\<lambda>led.
        Inr (Some \<lparr>energy_wh = e_wh, energy_kwh = e_kwh, emissions_g = em_g, co2_kg = kg,
                    m_driven = m, coal_burned = coal, google_search_equiv = google,
                    led_bulb_equiv = led\<rparr>)))))))))
      else Inr None)"

section \<open>Binary exponent and rounding\<close>

lemma ilog2_bounds:
  assumes "0 < x"
  shows "2 powi ilog2 x \<le> x" and "x < 2 powi (ilog2 x + 1)"
proof -
  have "2 powi ilog2 x \<le> x \<and> x < 2 powi (ilog2 x + 1)"
  proof (cases "1 \<le> x")
    case True
    define n where "n = \<lfloor>x\<rfloor>"
    have n: "0 < n" using True by (simp add: n_def)
    have b1: "1 \<le> bitlen n" using n by (simp add: bitlen_alt_def)
    from bitlen_bounds [OF n] have lo: "2 ^ nat (bitlen n - 1) \<le> n" and hi: "n < 2 ^ nat (bitlen n)"
      by simp_all
    have "(2::rat) powi (bitlen n - 1) = of_int (2 ^ nat (bitlen n - 1))"
      using b1 by (simp add: power_int_def)
    also have "\<dots> \<le> of_int n" using lo by (simp only: of_int_le_iff)
    also have "\<dots> \<le> x" by (simp add: n_def)
    finally have A: "(2::rat) powi (bitlen n - 1) \<le> x" .
    have "n + 1 \<le> 2 ^ nat (bitlen n)" using hi by simp
    then have "(of_int (n + 1) :: rat) \<le> of_int (2 ^ nat (bitlen n))" by (simp only: of_int_le_iff)
    also have "\<dots> = 2 powi (bitlen n)"
      using b1 by (simp add: power_int_def)
    finally have "of_int (n + 1) \<le> (2::rat) powi (bitlen n)" .
    moreover have "x < of_int (n + 1)" using floor_correct [of x] by (simp add: n_def)
    ultimately have B: "x < 2 powi (bitlen n)" by (rule order.strict_trans2 [rotated])
    show ?thesis using A B True by (simp add: ilog2_def n_def)
  next
    case False
    define y where "y = 1 / x"
    define m where "m = \<lceil>y\<rceil> - 1"
    have y: "1 < y" using False assms by (simp add: y_def)
    have m: "0 < m" using y by (simp add: m_def less_ceiling_iff)
    have b1: "1 \<le> bitlen m" using m by (simp add: bitlen_alt_def)
    from bitlen_bounds [OF m] have lo: "2 ^ nat (bitlen m - 1) \<le> m" and hi: "m < 2 ^ nat (bitlen m)"
      by simp_all
    have my: "of_int m < y" by (simp add: m_def) (metis ceiling_correct diff_less_eq)
    have ym: "y \<le> of_int (m + 1)" by (simp add: m_def)
    have "(2::rat) ^ nat (bitlen m - 1) = of_int (2 ^ nat (bitlen m - 1))" by simp
    also have "\<dots> \<le> of_int m" using lo by (simp only: of_int_le_iff)
    also have "\<dots> < y" by (rule my)
    finally have ylo: "2 ^ nat (bitlen m - 1) < y" .
    have "m + 1 \<le> 2 ^ nat (bitlen m)" using hi by simp
    then have "(of_int (m + 1) :: rat) \<le> of_int (2 ^ nat (bitlen m))" by (simp only: of_int_le_iff)
    also have "\<dots> = 2 ^ nat (bitlen m)" by simp
    finally have yhi: "y \<le> 2 ^ nat (bitlen m)" using ym by (rule order_trans [rotated])
    have x: "x = 1 / y" using assms by (simp add: y_def)
    have p1: "(2::rat) powi (- bitlen m) = 1 / 2 ^ nat (bitlen m)"
      using b1 by (simp add: power_int_def field_simps)
    have p2: "(2::rat) powi (- bitlen m + 1) = 1 / 2 ^ nat (bitlen m - 1)"
      using b1 by (simp add: power_int_def field_simps nat_diff_distrib)
    have A: "2 powi (- bitlen m) \<le> x"
      unfolding p1 x using yhi y by (simp add: field_simps)
    have B: "x < 2 powi (- bitlen m + 1)"
      unfolding p2 x using ylo y by (simp add: field_simps)
    show ?thesis using A B False by (simp add: ilog2_def m_def y_def)
  qed
  then show "2 powi ilog2 x \<le> x" and "x < 2 powi (ilog2 x + 1)" by simp_all
qed

lemma pow2_le_iff: "(2::rat) powi a \<le> 2 powi b \<longleftrightarrow> a \<le> b"
proof
  assume "(2::rat) powi a \<le> 2 powi b"
  show "a \<le> b"
  proof (rule ccontr)
    assume "\<not> a \<le> b"
    then have "b < a" by simp
    then have "(2::rat) powi b < 2 powi a" by (rule power_int_strict_increasing) simp
    with \<open>(2::rat) powi a \<le> 2 powi b\<close> show False by simp
  qed
next
  assume "a \<le> b"
  then show "(2::rat) powi a \<le> 2 powi b" by (rule power_int_increasing) simp
qed

lemma pow2_less_iff: "(2::rat) powi a < 2 powi b \<longleftrightarrow> a < b"
  using pow2_le_iff [of b a] by (simp add: not_le [symmetric])

lemma pow2_add: "(2::rat) powi (a + b) = 2 powi a * 2 powi b"
  by (simp add: power_int_add)

lemma pow2_diff: "(2::rat) powi (a - b) = 2 powi a / 2 powi b"
  by (simp add: power_int_diff)

lemma ilog2_ge: "0 < x \<Longrightarrow> 2 powi k \<le> x \<Longrightarrow> k \<le> ilog2 x"
proof -
  assume "0 < x" "2 powi k \<le> x"
  then have "(2::rat) powi k < 2 powi (ilog2 x + 1)"
    using ilog2_bounds(2) [of x] by simp
  then show ?thesis by (simp add: pow2_less_iff)
qed

lemma ilog2_less: "0 < x \<Longrightarrow> x < 2 powi k \<Longrightarrow> ilog2 x < k"
proof -
  assume "0 < x" "x < 2 powi k"
  then have "(2::rat) powi ilog2 x < 2 powi k"
    using ilog2_bounds(1) [of x] by simp
  then show ?thesis by (simp add: pow2_less_iff)
qed

lemma ilog2_unique: "2 powi e \<le> x \<Longrightarrow> x < 2 powi (e + 1) \<Longrightarrow> ilog2 x = e"
proof -
  assume a: "2 powi e \<le> x" "x < 2 powi (e + 1)"
  have "0 < (2::rat) powi e" by simp
  with a(1) have x: "0 < x" by linarith
  from ilog2_ge [OF x a(1)] ilog2_less [OF x a(2)] show ?thesis by simp
qed

lemma ilog2_mono: "0 < x \<Longrightarrow> x \<le> y \<Longrightarrow> ilog2 x \<le> ilog2 y"
proof -
  assume a: "0 < x" "x \<le> y"
  then have "2 powi ilog2 x \<le> y" using ilog2_bounds(1) [of x] by simp
  moreover have "0 < y" using a by simp
  ultimately show ?thesis by (rule ilog2_ge [rotated])
qed

lemma rhe_cases:
  "round_half_even x = \<lfloor>x\<rfloor> \<and> x - of_int \<lfloor>x\<rfloor> \<le> 1 / 2
   \<or> round_half_even x = \<lfloor>x\<rfloor> + 1 \<and> 1 / 2 \<le> x - of_int \<lfloor>x\<rfloor>"
  by (auto simp: round_half_even_def Let_def)

lemma rhe_bounds: "\<bar>x - of_int (round_half_even x)\<bar> \<le> 1 / 2"
  using rhe_cases [of x] floor_correct [of x] by auto

lemma rhe_unique: "\<bar>x - of_int m\<bar> < 1 / 2 \<Longrightarrow> round_half_even x = m"
proof -
  assume a: "\<bar>x - of_int m\<bar> < 1 / 2"
  have "\<bar>(of_int (round_half_even x) :: rat) - of_int m\<bar> < 1"
    using rhe_bounds [of x] a by linarith
  then have "\<bar>(of_int (round_half_even x - m) :: rat)\<bar> < of_int 1" by simp
  then have "\<bar>round_half_even x - m\<bar> < 1"
    by (simp only: of_int_abs [symmetric] of_int_less_iff)
  then show ?thesis by simp
qed

lemma rhe_of_int: "round_half_even (of_int n) = n"
  by (rule rhe_unique) simp

lemma rhe_mono: "x \<le> y \<Longrightarrow> round_half_even x \<le> round_half_even y"
proof -
  assume xy: "x \<le> y"
  then have f: "\<lfloor>x\<rfloor> \<le> \<lfloor>y\<rfloor>" by (rule floor_mono)
  show ?thesis
  proof (cases "\<lfloor>x\<rfloor> = \<lfloor>y\<rfloor>")
    case True
    with xy show ?thesis by (auto simp: round_half_even_def Let_def)
  next
    case False
    with f have "\<lfloor>x\<rfloor> + 1 \<le> \<lfloor>y\<rfloor>" by simp
    moreover have "round_half_even x \<le> \<lfloor>x\<rfloor> + 1" using rhe_cases [of x] by auto
    moreover have "\<lfloor>y\<rfloor> \<le> round_half_even y" using rhe_cases [of y] by auto
    ultimately show ?thesis by simp
  qed
qed

lemma rhe_ge: "of_int n \<le> x \<Longrightarrow> n \<le> round_half_even x"
  using rhe_mono [of "of_int n" x] by (simp add: rhe_of_int)

lemma rhe_le: "x \<le> of_int n \<Longrightarrow> round_half_even x \<le> n"
  using rhe_mono [of x "of_int n"] by (simp add: rhe_of_int)

lemma quantum_mono: "0 < x \<Longrightarrow> x \<le> y \<Longrightarrow> quantum x \<le> quantum y"
  using ilog2_mono [of x y] by (simp add: quantum_def)

lemma round_mag_0: "round_mag 0 = 0"
  by (simp add: round_mag_def)

lemma round_mag_nonneg: "0 \<le> x \<Longrightarrow> 0 \<le> round_mag x"
proof -
  assume x: "0 \<le> x"
  have "0 \<le> x / 2 powi quantum x" using x by simp
  then have "0 \<le> round_half_even (x / 2 powi quantum x)"
    using rhe_ge [of 0 "x / 2 powi quantum x"] by simp
  then show ?thesis by (simp add: round_mag_def)
qed

lemma round_mag_eval:
  assumes "2 powi e \<le> x" "x < 2 powi (e + 1)"
    and "\<bar>x / 2 powi (max e (- 1022) - 52) - of_int m\<bar> < 1 / 2"
  shows "round_mag x = of_int m * 2 powi (max e (- 1022) - 52)"
proof -
  have e: "ilog2 x = e" using assms(1,2) by (rule ilog2_unique)
  have "0 < (2::rat) powi e" by simp
  with assms(1) have x: "x \<noteq> 0" by linarith
  show ?thesis
    using x rhe_unique [OF assms(3)] by (simp add: round_mag_def quantum_def e)
qed

lemma round_mag_exact:
  assumes m: "0 < m" "m < 2 ^ 53" and k: "- 1074 \<le> k"
  shows "round_mag (of_int m * 2 powi k) = of_int m * 2 powi k"
proof -
  define x :: rat where "x = of_int m * 2 powi k"
  define q where "q = quantum x"
  have x: "0 < x" using m by (simp add: x_def)
  have "(of_int m :: rat) < of_int (2 ^ 53)" using m(2) by (simp only: of_int_less_iff)
  then have "(of_int m :: rat) < 2 powi 53" by simp
  then have "x < 2 powi 53 * 2 powi k" by (simp add: x_def)
  also have "\<dots> = 2 powi (53 + k)" by (simp add: pow2_add)
  finally have "ilog2 x < 53 + k" using x by (rule ilog2_less [rotated])
  then have qk: "q \<le> k" using k by (simp add: q_def quantum_def)
  have "x / 2 powi q = of_int m * 2 powi (k - q)" by (simp add: x_def pow2_diff)
  also have "\<dots> = of_int m * 2 ^ nat (k - q)" using qk by (simp add: power_int_def)
  also have "\<dots> = of_int (m * 2 ^ nat (k - q))" by simp
  finally have i: "x / 2 powi q = of_int (m * 2 ^ nat (k - q))" .
  have "round_mag x = of_int (round_half_even (x / 2 powi q)) * 2 powi q"
    using x by (simp add: round_mag_def q_def)
  also have "\<dots> = x / 2 powi q * 2 powi q" by (simp only: i rhe_of_int)
  also have "\<dots> = x" by simp
  finally show ?thesis by (simp add: x_def)
qed

lemma round_mag_pow2: "- 1074 \<le> k \<Longrightarrow> round_mag (2 powi k) = 2 powi k"
  using round_mag_exact [of 1 k] by simp

lemma round_mag_scaled:
  assumes x: "0 < x"
  shows "round_mag x = of_int (round_half_even (x / 2 powi quantum x)) * 2 powi quantum x"
  using x by (simp add: round_mag_def)

lemma scaled_bounds:
  assumes x: "0 < x"
  shows "x / 2 powi quantum x < 2 ^ 53"
    and "- 1022 \<le> ilog2 x \<Longrightarrow> 2 ^ 52 \<le> x / 2 powi quantum x"
proof -
  have "x < 2 powi (ilog2 x + 1)" using x by (rule ilog2_bounds)
  also have "\<dots> \<le> 2 powi (quantum x + 53)" by (simp add: pow2_le_iff quantum_def)
  also have "\<dots> = 2 ^ 53 * 2 powi quantum x" by (simp add: pow2_add)
  finally show "x / 2 powi quantum x < 2 ^ 53" by (simp add: field_simps)
next
  assume n: "- 1022 \<le> ilog2 x"
  then have q: "quantum x + 52 = ilog2 x" by (simp add: quantum_def)
  have "2 ^ 52 * 2 powi quantum x = (2::rat) powi (quantum x + 52)" by (simp add: pow2_add)
  also have "\<dots> \<le> x" unfolding q using x by (rule ilog2_bounds)
  finally show "2 ^ 52 \<le> x / 2 powi quantum x" by (simp add: field_simps)
qed

lemma round_mag_mono:
  assumes "0 \<le> x" "x \<le> y"
  shows "round_mag x \<le> round_mag y"
proof (cases "x = 0")
  case True
  then show ?thesis using assms round_mag_nonneg [of y] by (simp add: round_mag_0)
next
  case False
  then have x: "0 < x" using assms by simp
  then have y: "0 < y" using assms by simp
  have q: "quantum x \<le> quantum y" using x assms(2) by (rule quantum_mono)
  show ?thesis
  proof (cases "quantum x = quantum y")
    case True
    have "x / 2 powi quantum y \<le> y / 2 powi quantum y"
      using assms(2) by (simp add: divide_right_mono)
    then have "round_half_even (x / 2 powi quantum y) \<le> round_half_even (y / 2 powi quantum y)"
      by (rule rhe_mono)
    then have "(of_int (round_half_even (x / 2 powi quantum y)) :: rat)
        \<le> of_int (round_half_even (y / 2 powi quantum y))"
      by (simp only: of_int_le_iff)
    then show ?thesis
      unfolding round_mag_scaled [OF x] round_mag_scaled [OF y] True
      by (simp add: mult_right_mono)
  next
    case False
    with q have lt: "quantum x + 1 \<le> quantum y" by simp
    then have ny: "- 1022 \<le> ilog2 y" by (simp add: quantum_def split: if_splits)
    have "x / 2 powi quantum x \<le> of_int (2 ^ 53)"
      using scaled_bounds(1) [OF x] by simp
    then have "round_half_even (x / 2 powi quantum x) \<le> 2 ^ 53" by (rule rhe_le)
    then have "(of_int (round_half_even (x / 2 powi quantum x)) :: rat) \<le> of_int (2 ^ 53)"
      by (simp only: of_int_le_iff)
    then have "round_mag x \<le> 2 ^ 53 * 2 powi quantum x"
      unfolding round_mag_scaled [OF x] by (simp add: mult_right_mono)
    also have "\<dots> = 2 powi (quantum x + 53)" by (simp add: pow2_add)
    also have "\<dots> \<le> 2 powi (quantum y + 52)" using lt by (simp add: pow2_le_iff)
    also have "\<dots> = 2 ^ 52 * 2 powi quantum y" by (simp add: pow2_add)
    also have "\<dots> \<le> round_mag y"
    proof -
      have "of_int (2 ^ 52) \<le> y / 2 powi quantum y"
        using scaled_bounds(2) [OF y ny] by simp
      then have "2 ^ 52 \<le> round_half_even (y / 2 powi quantum y)" by (rule rhe_ge)
      then have "(of_int (2 ^ 52) :: rat) \<le> of_int (round_half_even (y / 2 powi quantum y))"
        by (simp only: of_int_le_iff)
      then show ?thesis
        unfolding round_mag_scaled [OF y] by (simp add: mult_right_mono)
    qed
    finally show ?thesis .
  qed
qed

lemma round_mag_ge_pow2: "- 1074 \<le> k \<Longrightarrow> 2 powi k \<le> x \<Longrightarrow> 2 powi k \<le> round_mag x"
  using round_mag_mono [of "2 powi k" x] by (simp add: round_mag_pow2)

lemma round_mag_le_pow2: "- 1074 \<le> k \<Longrightarrow> 0 \<le> x \<Longrightarrow> x \<le> 2 powi k \<Longrightarrow> round_mag x \<le> 2 powi k"
  using round_mag_mono [of x "2 powi k"] by (simp add: round_mag_pow2)

lemma round_mag_error:
  assumes x: "0 < x"
  shows "\<bar>round_mag x - x\<bar> \<le> 2 powi quantum x / 2"
proof -
  define q where "q = quantum x"
  define s where "s = x / 2 powi q"
  have xs: "x = s * 2 powi q" by (simp add: s_def)
  have "\<bar>round_mag x - x\<bar> = \<bar>(of_int (round_half_even s) - s) * 2 powi q\<bar>"
    unfolding round_mag_scaled [OF x] q_def [symmetric] s_def [symmetric]
    by (simp add: xs algebra_simps)
  also have "\<dots> = \<bar>s - of_int (round_half_even s)\<bar> * 2 powi q"
    by (simp add: abs_mult abs_minus_commute)
  also have "\<dots> \<le> 1 / 2 * 2 powi q"
    using rhe_bounds [of s] by (intro mult_right_mono) simp_all
  finally show ?thesis by (simp add: q_def)
qed

section \<open>Rounded results\<close>

lemma round_double_finite:
  "0 < round_mag x \<Longrightarrow> round_mag x < 2 ^ 1024 \<Longrightarrow> round_double s x = Finite (signed s (round_mag x))"
  by (simp add: round_double_def Let_def)

lemma round_double_0: "round_double s 0 = (if s then NegZero else Finite 0)"
  by (simp add: round_double_def round_mag_0)

lemma round_double_range:
  assumes "- 1074 \<le> k" "j \<le> 1023" "2 powi k \<le> x" "x \<le> 2 powi j"
  shows "round_double s x = Finite (signed s (round_mag x))"
    and "2 powi k \<le> round_mag x" and "round_mag x \<le> 2 powi j"
proof -
  have "0 < (2::rat) powi k" by simp
  with assms(3) have x: "0 < x" by linarith
  have kj: "k \<le> j" using assms(3,4) pow2_le_iff [of k j] by linarith
  show lo: "2 powi k \<le> round_mag x" using assms(1,3) by (rule round_mag_ge_pow2)
  show hi: "round_mag x \<le> 2 powi j"
    using round_mag_le_pow2 [of j x] assms(1,4) kj x by simp
  have "(2::rat) powi j \<le> 2 powi 1023" using assms(2) by (simp only: pow2_le_iff)
  also have "\<dots> < 2 powi 1024" by (simp only: pow2_less_iff)
  finally have "round_mag x < 2 powi 1024" using hi by linarith
  then have "round_mag x < 2 ^ 1024" by simp
  moreover have "0 < round_mag x" using lo \<open>0 < (2::rat) powi k\<close> by linarith
  ultimately show "round_double s x = Finite (signed s (round_mag x))"
    by (rule round_double_finite [rotated])
qed

lemma round_double_eval:
  assumes "2 powi e \<le> x" "x < 2 powi (e + 1)"
    and "\<bar>x / 2 powi (max e (- 1022) - 52) - of_int m\<bar> < 1 / 2"
    and "0 < m" "of_int m * 2 powi (max e (- 1022) - 52) < (2 ^ 1024 :: rat)"
  shows "round_double s x = Finite (signed s (of_int m * 2 powi (max e (- 1022) - 52)))"
proof -
  have "round_mag x = of_int m * 2 powi (max e (- 1022) - 52)"
    using assms(1-3) by (rule round_mag_eval)
  then show ?thesis using assms(4,5) by (simp add: round_double_finite)
qed

lemma round_double_exact:
  assumes "0 < m" "m < 2 ^ 53" "- 1074 \<le> k" "k \<le> 970"
  shows "round_double s (of_int m * 2 powi k) = Finite (signed s (of_int m * 2 powi k))"
proof -
  have r: "round_mag (of_int m * 2 powi k) = of_int m * 2 powi k"
    using assms(1-3) by (rule round_mag_exact)
  have "(of_int m :: rat) < of_int (2 ^ 53)" using assms(2) by (simp only: of_int_less_iff)
  then have "(of_int m :: rat) * 2 powi k < 2 powi 53 * 2 powi k" by simp
  also have "\<dots> = 2 powi (53 + k)" by (simp add: pow2_add)
  also have "\<dots> \<le> 2 powi 1024" using assms(4) by (simp only: pow2_le_iff)
  finally have "(of_int m :: rat) * 2 powi k < 2 ^ 1024" by simp
  moreover have "0 < (of_int m :: rat) * 2 powi k" using assms(1) by simp
  ultimately show ?thesis using r by (simp add: round_double_finite)
qed

lemma float_of_int_exact:
  assumes "0 < n" "n < 2 ^ 53"
  shows "float_of_int n = Inr (Finite (of_int n))"
  using round_double_exact [OF assms, of 0 False] assms(1)
  by (simp add: float_of_int_def signed_def)

lemma float_lit_half: "float_lit (1 / 2) = Finite (1 / 2)"
  using round_double_exact [of 1 "- 1" False] by (simp add: float_lit_def signed_def)

lemma float_lit_5: "float_lit 5 = Finite 5"
  using round_double_exact [of 5 0 False] by (simp add: float_lit_def signed_def)

lemma float_lit_video: "float_lit (115 / 8) = Finite (115 / 8)"
  using round_double_exact [of 115 "- 3" False] by (simp add: float_lit_def signed_def)

lemma float_lit_search: "float_lit (1 / 20) = Finite (3602879701896397 / 72057594037927936)"
proof -
  have "round_double False (1 / 20)
      = Finite (signed False (of_int 7205759403792794 * 2 powi (max (- 5) (- 1022) - 52)))"
    by (rule round_double_eval) simp_all
  then show ?thesis by (simp add: float_lit_def signed_def)
qed

lemma float_div_int_pos:
  "0 < n \<Longrightarrow> n < 2 ^ 53 \<Longrightarrow> float_div_int a n = Inr (ieee_div a (Finite (of_int n)))"
  by (simp add: float_div_int_def float_of_int_exact bind_err_def float_truediv_def is_zero_def)

lemma float_mul_int_pos:
  "0 < n \<Longrightarrow> n < 2 ^ 53 \<Longrightarrow> float_mul_int a n = Inr (float_mul a (Finite (of_int n)))"
  by (simp add: float_mul_int_def float_of_int_exact bind_err_def)

lemma float_truediv_search:
  "float_truediv a (float_lit (1 / 20)) = Inr (ieee_div a (float_lit (1 / 20)))"
  by (simp add: float_truediv_def float_lit_search is_zero_def)

lemma estimate_Some:
  assumes "0 < units" "float_of_int units = Inr q" "py_float intensity = Inr x"
  shows "estimate w units intensity True =
    Inr (Some \<lparr>energy_wh = float_mul q (ENERGY_FACTORS w),
      energy_kwh = ieee_div (float_mul q (ENERGY_FACTORS w)) (Finite 1000),
      emissions_g = float_mul (ieee_div (float_mul q (ENERGY_FACTORS w)) (Finite 1000)) x,
      co2_kg = ieee_div (float_mul (ieee_div (float_mul q (ENERGY_FACTORS w)) (Finite 1000)) x) (Finite 1000),
      m_driven = float_mul (ieee_div (float_mul (ieee_div (float_mul q (ENERGY_FACTORS w)) (Finite 1000)) x) (Finite 1000)) (Finite 4042),
      coal_burned = float_mul (ieee_div (float_mul (ieee_div (float_mul q (ENERGY_FACTORS w)) (Finite 1000)) x) (Finite 1000)) (Finite 500),
      google_search_equiv = ieee_div (float_mul (ieee_div (float_mul q (ENERGY_FACTORS w)) (Finite 1000)) x) (float_lit (5 / 100)),
      led_bulb_equiv = ieee_div (float_mul (ieee_div (float_mul q (ENERGY_FACTORS w)) (Finite 1000)) x) (Finite 15)\<rparr>)"
  using assms
  by (simp add: estimate_def int_mul_float_def float_mul_num_def float_div_int_pos
      float_mul_int_pos float_truediv_search bind_err_def)

section \<open>No result without a positive quantity\<close>

text \<open>
  C1. For every workload type and every intensity, a quantity \<open>units \<le> 0\<close> produces no
  result: the outcome is \<open>None\<close>, neither a report of zeros nor an error. This holds
  whether or not the form was submitted.
\<close>

theorem estimate_nonpositive_no_result:
  "units \<le> 0 \<Longrightarrow> estimate workload_type units intensity submit = Inr None"
  by (simp add: estimate_def)

theorem estimate_nonpositive_no_result_witness:
  "(0::int) \<le> 0 \<and> estimate Text 0 (PyInt 366) True = Inr None
   \<and> estimate Video (- 3) (PyFloat (Finite 0)) True = Inr None"
  using estimate_nonpositive_no_result [of 0 Text "PyInt 366" True]
    estimate_nonpositive_no_result [of "- 3" Video "PyFloat (Finite 0)" True]
  by simp

section \<open>Intensity: override and default\<close>

lemma dict_set_new: "k \<notin> fst ` set d \<Longrightarrow> dict_set d k v = d @ [(k, v)]"
  by (induction d) auto

lemma dict_comp_distinct:
  "map f ks = map Inr vs \<Longrightarrow> distinct (map fst d @ ks) \<Longrightarrow> dict_comp f d ks = Inr (d @ zip ks vs)"
proof (induction ks arbitrary: d vs)
  case Nil
  then show ?case by simp
next
  case (Cons k ks)
  from Cons.prems(1) obtain v vs' where vs: "vs = v # vs'" and fk: "f k = Inr v"
    and rest: "map f ks = map Inr vs'"
    by (cases vs) auto
  have new: "k \<notin> fst ` set d" using Cons.prems(2) by auto
  have "distinct (map fst (d @ [(k, v)]) @ ks)" using Cons.prems(2) by auto
  from Cons.IH [OF rest this] show ?case
    by (simp add: fk bind_err_def dict_set_new [OF new] vs)
qed

lemma map_of_zip_keys:
  "distinct ks \<Longrightarrow> length ks = length vs \<Longrightarrow> map (map_of (zip ks vs)) ks = map Some vs"
proof (induction ks arbitrary: vs)
  case Nil
  then show ?case by simp
next
  case (Cons k ks)
  then obtain v vs' where vs: "vs = v # vs'" by (cases vs) auto
  have "map (map_of (zip (k # ks) vs)) (k # ks) = Some v # map (map_of (zip (k # ks) vs)) ks"
    by (simp add: vs)
  also have "map (map_of (zip (k # ks) vs)) ks = map (map_of (zip ks vs')) ks"
    using Cons.prems(1) by (auto simp add: vs)
  also have "\<dots> = map Some vs'"
    using Cons.prems by (intro Cons.IH) (simp_all add: vs)
  finally show ?case by (simp only: vs list.map)
qed

lemma eu_country_names:
  "map (\<lambda>country. index1 (split1 country)) eu_countries = map Inr
     [''Austria'', ''Belgium'', ''Bulgaria'', ''Croatia'', ''Cyprus'', ''Czech Republic'',
      ''Denmark'', ''Estonia'', ''Finland'', ''France'', ''Germany'', ''Greece'', ''Hungary'',
      ''Ireland'', ''Italy'', ''Latvia'', ''Lithuania'', ''Luxembourg'', ''Malta'',
      ''Netherlands'', ''Poland'', ''Portugal'', ''Romania'', ''Slovakia'', ''Slovenia'',
      ''Spain'', ''Sweden'']"
  by (simp add: eu_countries_def flag_def)

lemma eu_countries_distinct: "distinct eu_countries"
  by (simp add: eu_countries_def flag_def)

lemma eu_countries_length: "length eu_countries = 27"
  by (simp add: eu_countries_def)

lemma country_icon_value:
  "country_icon = Inr (zip eu_countries
     [''Austria'', ''Belgium'', ''Bulgaria'', ''Croatia'', ''Cyprus'', ''Czech Republic'',
      ''Denmark'', ''Estonia'', ''Finland'', ''France'', ''Germany'', ''Greece'', ''Hungary'',
      ''Ireland'', ''Italy'', ''Latvia'', ''Lithuania'', ''Luxembourg'', ''Malta'',
      ''Netherlands'', ''Poland'', ''Portugal'', ''Romania'', ''Slovakia'', ''Slovenia'',
      ''Spain'', ''Sweden''])"
  unfolding country_icon_def
  using dict_comp_distinct [OF eu_country_names, of "[]"] eu_countries_distinct by simp

lemma default_intensity_table:
  "default_intensity = Inr (map (\<lambda>country. (country, 366))
     [''Austria'', ''Belgium'', ''Bulgaria'', ''Croatia'', ''Cyprus'', ''Czech Republic'',
      ''Denmark'', ''Estonia'', ''Finland'', ''France'', ''Germany'', ''Greece'', ''Hungary'',
      ''Ireland'', ''Italy'', ''Latvia'', ''Lithuania'', ''Luxembourg'', ''Malta'',
      ''Netherlands'', ''Poland'', ''Portugal'', ''Romania'', ''Slovakia'', ''Slovenia'',
      ''Spain'', ''Sweden''])"
proof -
  let ?names = "[''Austria'', ''Belgium'', ''Bulgaria'', ''Croatia'', ''Cyprus'', ''Czech Republic'',
      ''Denmark'', ''Estonia'', ''Finland'', ''France'', ''Germany'', ''Greece'', ''Hungary'',
      ''Ireland'', ''Italy'', ''Latvia'', ''Lithuania'', ''Luxembourg'', ''Malta'',
      ''Netherlands'', ''Poland'', ''Portugal'', ''Romania'', ''Slovakia'', ''Slovenia'',
      ''Spain'', ''Sweden'']"
  have s: "map snd (zip eu_countries ?names) = ?names"
    by (rule map_snd_zip) (simp add: eu_countries_length)
  have m: "map (\<lambda>country. Inr (366::int) :: py_error + int) ?names
      = map Inr (map (\<lambda>country. 366) ?names)"
    by simp
  have d: "distinct (map fst ([] :: (string \<times> int) list) @ ?names)" by simp
  have "dict_comp (\<lambda>country. Inr (366::int) :: py_error + int) [] ?names
      = Inr ([] @ zip ?names (map (\<lambda>country. 366) ?names))"
    using m d by (rule dict_comp_distinct)
  then show ?thesis
    unfolding default_intensity_def country_icon_value by (simp add: bind_err_def s)
qed

lemma country_icon_names:
  "map country_name_of eu_countries = map Inr
     [''Austria'', ''Belgium'', ''Bulgaria'', ''Croatia'', ''Cyprus'', ''Czech Republic'',
      ''Denmark'', ''Estonia'', ''Finland'', ''France'', ''Germany'', ''Greece'', ''Hungary'',
      ''Ireland'', ''Italy'', ''Latvia'', ''Lithuania'', ''Luxembourg'', ''Malta'',
      ''Netherlands'', ''Poland'', ''Portugal'', ''Romania'', ''Slovakia'', ''Slovenia'',
      ''Spain'', ''Sweden'']"
proof -
  let ?names = "[''Austria'', ''Belgium'', ''Bulgaria'', ''Croatia'', ''Cyprus'', ''Czech Republic'',
      ''Denmark'', ''Estonia'', ''Finland'', ''France'', ''Germany'', ''Greece'', ''Hungary'',
      ''Ireland'', ''Italy'', ''Latvia'', ''Lithuania'', ''Luxembourg'', ''Malta'',
      ''Netherlands'', ''Poland'', ''Portugal'', ''Romania'', ''Slovakia'', ''Slovenia'',
      ''Spain'', ''Sweden'']"
  have "map (map_of (zip eu_countries ?names)) eu_countries = map Some ?names"
    using eu_countries_distinct by (rule map_of_zip_keys) (simp add: eu_countries_length)
  then have "map (\<lambda>c. case map_of (zip eu_countries ?names) c of
        None \<Rightarrow> Inl KeyError | Some name \<Rightarrow> Inr name) eu_countries = map Inr ?names"
    (is "map ?g _ = _")
  proof -
    assume a: "map (map_of (zip eu_countries ?names)) eu_countries = map Some ?names"
    have "map ?g eu_countries
        = map (\<lambda>r. case r of None \<Rightarrow> Inl KeyError | Some name \<Rightarrow> Inr name)
            (map (map_of (zip eu_countries ?names)) eu_countries)"
      by (simp add: comp_def)
    also have "\<dots> = map Inr ?names" unfolding a by simp
    finally show ?thesis .
  qed
  then show ?thesis
    by (simp add: country_name_of_def [abs_def] country_icon_value bind_err_def)
qed

text \<open>
  C4. For every location and every override value, when the override is present the
  intensity is the override itself, unchanged: it is neither checked against the
  location's default nor clamped.
\<close>

theorem override_returned_unchanged:
  "CO2_INTENSITY country_name (Some v) = Inr (PyFloat v)"
  by (simp add: CO2_INTENSITY_def co2_default_def default_intensity_table bind_err_def)

text \<open>
  C5. With no override, the intensity of a location is its value in the table of
  defaults when the location is in the table, and the global average 475 when it is
  not. The table holds 366 for each of its 27 names, so every entry of \<open>eu_countries\<close>
  that can be selected gets 366.
\<close>

theorem default_intensity_or_global:
  "CO2_INTENSITY country_name None =
     Inr (PyInt (if country_name \<in> set
       [''Austria'', ''Belgium'', ''Bulgaria'', ''Croatia'', ''Cyprus'', ''Czech Republic'',
        ''Denmark'', ''Estonia'', ''Finland'', ''France'', ''Germany'', ''Greece'', ''Hungary'',
        ''Ireland'', ''Italy'', ''Latvia'', ''Lithuania'', ''Luxembourg'', ''Malta'',
        ''Netherlands'', ''Poland'', ''Portugal'', ''Romania'', ''Slovakia'', ''Slovenia'',
        ''Spain'', ''Sweden''] then 366 else 475))
   \<and> map (\<lambda>selected_country.
            bind_err (country_name_of selected_country) (\<lambda>name. CO2_INTENSITY name None))
        eu_countries = replicate 27 (Inr (PyInt 366))
   \<and> CO2_INTENSITY ''Atlantis'' None = Inr (PyInt 475)"
proof -
  have a: "CO2_INTENSITY name None =
     Inr (PyInt (if name \<in> set
       [''Austria'', ''Belgium'', ''Bulgaria'', ''Croatia'', ''Cyprus'', ''Czech Republic'',
        ''Denmark'', ''Estonia'', ''Finland'', ''France'', ''Germany'', ''Greece'', ''Hungary'',
        ''Ireland'', ''Italy'', ''Latvia'', ''Lithuania'', ''Luxembourg'', ''Malta'',
        ''Netherlands'', ''Poland'', ''Portugal'', ''Romania'', ''Slovakia'', ''Slovenia'',
        ''Spain'', ''Sweden''] then 366 else 475))" for name
    by (simp add: CO2_INTENSITY_def co2_default_def default_intensity_table bind_err_def
        CO2_INTENSITY_GLOBAL_def)
  have "map (\<lambda>selected_country.
            bind_err (country_name_of selected_country) (\<lambda>name. CO2_INTENSITY name None))
        eu_countries
     = map (\<lambda>e. bind_err e (\<lambda>name. CO2_INTENSITY name None))
        (map country_name_of eu_countries)"
    by (simp add: comp_def)
  also have "\<dots> = replicate 27 (Inr (PyInt 366))"
    unfolding country_icon_names by (simp add: bind_err_def a eval_nat_numeral)
  finally show ?thesis using a by simp
qed

section \<open>The video scenario\<close>

lemma round_23_160: "round_double False (23 / 160) = Finite (2589569785738035 / 18014398509481984)"
proof -
  have "round_double False (23 / 160)
      = Finite (signed False (of_int 5179139571476070 * 2 powi (max (- 3) (- 1022) - 52)))"
    by (rule round_double_eval) simp_all
  then show ?thesis by (simp add: signed_def)
qed

lemma round_video_emissions: "round_double False (473891270790060405 / 9007199254740992) = Finite (3702275553047347 / 70368744177664)"
proof -
  have "round_double False (473891270790060405 / 9007199254740992)
      = Finite (signed False (of_int 7404551106094694 * 2 powi (max 5 (- 1022) - 52)))"
    by (rule round_double_eval) simp_all
  then show ?thesis by (simp add: signed_def)
qed

lemma round_4209_80: "round_double False (4209 / 80) = Finite (3702275553047347 / 70368744177664)"
proof -
  have "round_double False (4209 / 80)
      = Finite (signed False (of_int 7404551106094694 * 2 powi (max 5 (- 1022) - 52)))"
    by (rule round_double_eval) simp_all
  then show ?thesis by (simp add: signed_def)
qed

lemma round_21033_400: "round_double False (21033 / 400) = Finite (7400328981444035 / 140737488355328)"
proof -
  have "round_double False (21033 / 400)
      = Finite (signed False (of_int 7400328981444035 * 2 powi (max 5 (- 1022) - 52)))"
    by (rule round_double_eval) simp_all
  then show ?thesis by (simp add: signed_def)
qed

lemma float_mul_Finite:
  "float_mul (Finite a) (Finite b) = round_double ((a < 0) \<noteq> (b < 0)) (\<bar>a\<bar> * \<bar>b\<bar>)"
  by (simp add: float_mul_def is_inf_def sign_def mag_def)

lemma ieee_div_Finite:
  "ieee_div (Finite a) (Finite b) = round_double ((a < 0) \<noteq> (b < 0)) (\<bar>a\<bar> / \<bar>b\<bar>)"
  by (simp add: ieee_div_def is_inf_def sign_def mag_def)

lemma float_lit_14375: "float_lit (575 / 4) = Finite (575 / 4)"
  using round_double_exact [of 575 "- 2" False] by (simp add: float_lit_def signed_def)

lemma video_10_366:
  "\<exists>r. estimate Video 10 (PyInt 366) True = Inr (Some r)
     \<and> energy_wh r = Finite (575 / 4)
     \<and> energy_kwh r = Finite (2589569785738035 / 18014398509481984)
     \<and> emissions_g r = Finite (3702275553047347 / 70368744177664)"
proof -
  have q: "float_of_int 10 = Inr (Finite 10)" and i: "py_float (PyInt 366) = Inr (Finite 366)"
    by (simp_all add: py_float_def float_of_int_exact)
  have w: "float_mul (Finite 10) (float_lit (115 / 8)) = Finite (575 / 4)"
    using round_double_exact [of 575 "- 2" False]
    by (simp add: float_lit_video float_mul_Finite signed_def)
  have k: "ieee_div (Finite (575 / 4)) (Finite 1000) = Finite (2589569785738035 / 18014398509481984)"
    by (simp add: ieee_div_Finite round_23_160)
  have e: "float_mul (Finite (2589569785738035 / 18014398509481984)) (Finite 366)
      = Finite (3702275553047347 / 70368744177664)"
    by (simp add: float_mul_Finite round_video_emissions)
  show ?thesis
    using estimate_Some [OF _ q i, of Video] by (simp add: w k e)
qed

lemma float_lit_014375: "float_lit (23 / 160) = Finite (2589569785738035 / 18014398509481984)"
  by (simp add: float_lit_def round_23_160)

lemma float_lit_526125: "float_lit (4209 / 80) = Finite (3702275553047347 / 70368744177664)"
  by (simp add: float_lit_def round_4209_80)

lemma float_lit_525825: "float_lit (21033 / 400) = Finite (7400328981444035 / 140737488355328)"
  by (simp add: float_lit_def round_21033_400)

text \<open>
  C8. The video scenario: 10 seconds at 366 g/kWh. The energy is 143.75 Wh, that is
  0.14375 kWh, and the emissions are 0.14375 * 366 = 52.6125 g, each figure being
  the binary64 number nearest to the decimal.
\<close>

theorem video_scenario:
  "\<exists>r. estimate Video 10 (PyInt 366) True = Inr (Some r)
     \<and> energy_wh r = float_lit (14375 / 100)
     \<and> energy_kwh r = float_lit (14375 / 100000)
     \<and> emissions_g r = float_lit (526125 / 10000)"
  using video_10_366 by (simp add: float_lit_14375 float_lit_014375 float_lit_526125)

text \<open>The emissions of the video scenario are not 52.5825 g.\<close>

theorem video_scenario_counterexample:
  "map_sum id (map_option emissions_g) (estimate Video 10 (PyInt 366) True)
     = Inr (Some (float_lit (526125 / 10000)))
   \<and> \<not> float_eq (float_lit (526125 / 10000)) (float_lit (525825 / 10000))"
proof -
  from video_10_366 obtain r where "estimate Video 10 (PyInt 366) True = Inr (Some r)"
    and "emissions_g r = Finite (3702275553047347 / 70368744177664)" by blast
  then show ?thesis
    by (simp add: float_lit_526125 float_lit_525825 float_eq_def fval_def)
qed

section \<open>Signs and ranges of the results\<close>

lemma round_double_False_cases:
  assumes "0 \<le> x"
  shows "round_double False x = Infinite False
       \<or> round_double False x = Finite (round_mag x) \<and> 0 \<le> round_mag x \<and> round_mag x < 2 ^ 1024"
  using round_mag_nonneg [OF assms] by (auto simp add: round_double_def Let_def signed_def)

lemma rd_mono_pos:
  assumes "0 \<le> x" "x \<le> y"
  shows "float_le (round_double False x) (round_double False y)"
  using round_mag_mono [OF assms] round_mag_nonneg [OF assms(1)]
  by (auto simp add: round_double_def Let_def signed_def fval_def)

lemma rd_mono_neg:
  assumes "0 \<le> x" "x \<le> y"
  shows "float_le (round_double True y) (round_double True x)"
  using round_mag_mono [OF assms] round_mag_nonneg [OF assms(1)]
  by (auto simp add: round_double_def Let_def signed_def fval_def)

lemma rd_neg_le_pos:
  assumes "0 \<le> x" "0 \<le> y"
  shows "float_le (round_double True x) (round_double False y)"
  using round_mag_nonneg [OF assms(1)] round_mag_nonneg [OF assms(2)]
  by (auto simp add: round_double_def Let_def signed_def fval_def)

lemma nonneg_cases:
  "float_le (Finite 0) a \<longleftrightarrow> a = NegZero \<or> a = Infinite False \<or> (\<exists>v. a = Finite v \<and> 0 \<le> v)"
  by (cases a) (auto simp add: fval_def)

lemma nonneg_round_double: "0 \<le> x \<Longrightarrow> float_le (Finite 0) (round_double False x)"
  using round_double_False_cases [of x] by (auto simp add: fval_def)

lemma nonneg_mul_pos:
  assumes "float_le (Finite 0) a" "0 < c"
  shows "float_le (Finite 0) (float_mul a (Finite c))"
proof -
  from assms(1) consider "a = NegZero" | "a = Infinite False" | v where "a = Finite v" "0 \<le> v"
    unfolding nonneg_cases by blast
  then show ?thesis
  proof cases
    case 1
    then show ?thesis using assms(2)
      by (simp add: float_mul_def is_inf_def is_zero_def sign_def mag_def round_double_0 fval_def)
  next
    case 2
    then show ?thesis using assms(2)
      by (simp add: float_mul_def is_inf_def is_zero_def sign_def)
  next
    case 3
    then show ?thesis using assms(2) nonneg_round_double [of "v * c"]
      by (simp add: float_mul_Finite)
  qed
qed

lemma pos_mul_nonneg:
  assumes "0 < c" "float_le (Finite 0) a"
  shows "float_le (Finite 0) (float_mul (Finite c) a)"
proof -
  from assms(2) consider "a = NegZero" | "a = Infinite False" | v where "a = Finite v" "0 \<le> v"
    unfolding nonneg_cases by blast
  then show ?thesis
  proof cases
    case 1
    then show ?thesis using assms(1)
      by (simp add: float_mul_def is_inf_def is_zero_def sign_def mag_def round_double_0 fval_def)
  next
    case 2
    then show ?thesis using assms(1)
      by (simp add: float_mul_def is_inf_def is_zero_def sign_def)
  next
    case 3
    then show ?thesis using assms(1) nonneg_round_double [of "c * v"]
      by (simp add: float_mul_Finite)
  qed
qed

lemma nonneg_div_pos:
  assumes "float_le (Finite 0) a" "0 < c"
  shows "float_le (Finite 0) (ieee_div a (Finite c))"
proof -
  from assms(1) consider "a = NegZero" | "a = Infinite False" | v where "a = Finite v" "0 \<le> v"
    unfolding nonneg_cases by blast
  then show ?thesis
  proof cases
    case 1
    then show ?thesis using assms(2)
      by (simp add: ieee_div_def is_inf_def sign_def mag_def round_double_0 fval_def)
  next
    case 2
    then show ?thesis using assms(2)
      by (simp add: ieee_div_def is_inf_def sign_def)
  next
    case 3
    then show ?thesis using assms(2) nonneg_round_double [of "v / c"]
      by (simp add: ieee_div_Finite)
  qed
qed

lemma factor_value:
  "ENERGY_FACTORS w = Finite (fval (ENERGY_FACTORS w))
   \<and> 2 powi (- 1) \<le> fval (ENERGY_FACTORS w) \<and> fval (ENERGY_FACTORS w) \<le> 2 powi 4"
  by (cases w) (simp_all add: float_lit_half float_lit_5 float_lit_video fval_def)

lemma mul_pos_range:
  assumes "0 < a" "0 < b" "- 1074 \<le> k" "j \<le> 1023" "2 powi k \<le> a * b" "a * b \<le> 2 powi j"
  shows "float_mul (Finite a) (Finite b) = Finite (round_mag (a * b))"
    and "2 powi k \<le> round_mag (a * b)" and "round_mag (a * b) \<le> 2 powi j"
  using round_double_range(1) [OF assms(3-6), of False] round_double_range(2,3) [OF assms(3-6)]
    assms(1,2)
  by (simp_all add: float_mul_Finite signed_def)

lemma div_pos_range:
  assumes "0 < a" "0 < b" "- 1074 \<le> k" "j \<le> 1023" "2 powi k \<le> a / b" "a / b \<le> 2 powi j"
  shows "ieee_div (Finite a) (Finite b) = Finite (round_mag (a / b))"
    and "2 powi k \<le> round_mag (a / b)" and "round_mag (a / b) \<le> 2 powi j"
  using round_double_range(1) [OF assms(3-6), of False] round_double_range(2,3) [OF assms(3-6)]
    assms(1,2)
  by (simp_all add: ieee_div_Finite signed_def)

lemma float_of_int_value:
  assumes "0 < n" "n < 2 ^ 1000"
  shows "float_of_int n = Inr (Finite (round_mag (of_int n)))"
    and "1 \<le> round_mag (of_int n)" and "round_mag (of_int n) \<le> 2 powi 1000"
proof -
  have "1 \<le> n" using assms by simp
  then have "(of_int 1 :: rat) \<le> of_int n" by (simp only: of_int_le_iff)
  then have lo: "2 powi 0 \<le> (of_int n :: rat)" by simp
  have "n \<le> 2 ^ 1000" using assms by simp
  then have "(of_int n :: rat) \<le> of_int (2 ^ 1000)" by (simp only: of_int_le_iff)
  then have hi: "(of_int n :: rat) \<le> 2 powi 1000" by simp
  have k: "- 1074 \<le> (0::int)" and j: "(1000::int) \<le> 1023" by simp_all
  note r = round_double_range [OF k j lo hi]
  show "float_of_int n = Inr (Finite (round_mag (of_int n)))"
    using r(1) [of False] assms by (simp add: float_of_int_def signed_def)
  show "1 \<le> round_mag (of_int n)" using r(2) by simp
  show "round_mag (of_int n) \<le> 2 powi 1000" by (rule r(3))
qed

lemma energy_pipeline:
  fixes units :: int and w :: workload
  assumes "0 < units" "units < 2 ^ 1000"
  defines "qm \<equiv> round_mag (of_int units)"
  defines "wm \<equiv> round_mag (qm * fval (ENERGY_FACTORS w))"
  defines "km \<equiv> round_mag (wm / 1000)"
  shows "float_of_int units = Inr (Finite qm)"
    and "float_mul (Finite qm) (ENERGY_FACTORS w) = Finite wm"
    and "ieee_div (Finite wm) (Finite 1000) = Finite km"
    and "2 powi (- 1) \<le> wm" and "wm \<le> 2 powi 1004"
    and "2 powi (- 11) \<le> km" and "km \<le> 2 powi 1004"
proof -
  let ?f = "fval (ENERGY_FACTORS w)"
  note q = float_of_int_value [OF assms(1,2), folded qm_def]
  note f = factor_value [of w]
  show "float_of_int units = Inr (Finite qm)" by (rule q(1))
  have qpos: "0 < qm" using q(2) by simp
  have fpos: "0 < ?f"
  proof -
    have "0 < (2::rat) powi (- 1)" by simp
    then show ?thesis using f by linarith
  qed
  have lo: "2 powi (- 1) \<le> qm * ?f"
  proof -
    have "1 * 2 powi (- 1) \<le> qm * ?f"
      using q(2) f qpos by (intro mult_mono) simp_all
    then show ?thesis by simp
  qed
  have hi: "qm * ?f \<le> 2 powi 1004"
  proof -
    have "qm * ?f \<le> 2 powi 1000 * 2 powi 4"
      using q(3) f qpos fpos by (intro mult_mono) simp_all
    also have "\<dots> = 2 powi 1004" by (simp add: power_int_add [symmetric])
    finally show ?thesis .
  qed
  have k1: "- 1074 \<le> (- 1 :: int)" and j1: "(1004::int) \<le> 1023" by simp_all
  note w = mul_pos_range [OF qpos fpos k1 j1 lo hi, folded wm_def]
  show "float_mul (Finite qm) (ENERGY_FACTORS w) = Finite wm"
    using w(1) f by simp
  show wlo: "2 powi (- 1) \<le> wm" and whi: "wm \<le> 2 powi 1004" by (rule w(2), rule w(3))
  have wpos: "0 < wm"
  proof -
    have "0 < (2::rat) powi (- 1)" by simp
    then show ?thesis using wlo by linarith
  qed
  have lo2: "2 powi (- 11) \<le> wm / 1000"
  proof -
    have "(2::rat) powi (- 11) * 1000 \<le> 2 powi (- 1)" by simp
    then show ?thesis using wlo by (simp add: field_simps)
  qed
  have hi2: "wm / 1000 \<le> 2 powi 1004"
  proof -
    have "wm / 1000 \<le> wm" using wpos by simp
    then show ?thesis using whi by linarith
  qed
  have k2: "- 1074 \<le> (- 11 :: int)" and t: "(0::rat) < 1000" by simp_all
  note k = div_pos_range [OF wpos t k2 j1 lo2 hi2, folded km_def]
  show "ieee_div (Finite wm) (Finite 1000) = Finite km" by (rule k(1))
  show "2 powi (- 11) \<le> km" and "km \<le> 2 powi 1004" by (rule k(2), rule k(3))
qed

lemma zero_less_pow2_bound: "2 powi k \<le> (x::rat) \<Longrightarrow> 0 < x"
proof -
  assume "2 powi k \<le> x"
  moreover have "0 < (2::rat) powi k" by simp
  ultimately show ?thesis by linarith
qed

lemma fval_Finite: "fval (Finite x) = x"
  by (simp add: fval_def)

text \<open>
  C9. An override of 0 is the intensity, for every location; and with an intensity of
  zero every positive quantity gives a result whose emissions are zero while its
  energy in Wh is positive. The quantities covered are those below \<open>2 ^ 1000\<close>; a
  zero intensity is \<open>0.0\<close>, \<open>-0.0\<close> or the \<open>int\<close> 0.
\<close>

theorem zero_intensity_zero_emissions:
  assumes "0 < units" "units < 2 ^ 1000" "py_float intensity = Inr z" "is_zero z"
  shows "CO2_INTENSITY country_name (Some (Finite 0)) = Inr (PyFloat (Finite 0))
     \<and> (\<exists>r. estimate w units intensity True = Inr (Some r)
          \<and> float_eq (emissions_g r) (Finite 0) \<and> float_lt (Finite 0) (energy_wh r))"
proof -
  note p = energy_pipeline [OF assms(1,2)]
  define km where "km = round_mag (round_mag (round_mag (of_int units) * fval (ENERGY_FACTORS w)) / 1000)"
  have km: "0 < km" using p(6) unfolding km_def by (rule zero_less_pow2_bound)
  have wm: "0 < round_mag (round_mag (of_int units) * fval (ENERGY_FACTORS w))"
    using p(4) by (rule zero_less_pow2_bound)
  have e: "float_eq (float_mul (Finite km) z) (Finite 0)"
    using assms(4) km
    by (auto simp add: is_zero_def float_mul_def is_inf_def sign_def mag_def round_double_0
        float_eq_def fval_def)
  have o: "CO2_INTENSITY country_name (Some (Finite 0)) = Inr (PyFloat (Finite 0))"
    by (simp add: CO2_INTENSITY_def co2_default_def default_intensity_table bind_err_def)
  show ?thesis
    using estimate_Some [OF assms(1) p(1) assms(3), of w] e wm o
    by (simp add: p(2,3) km_def fval_Finite)
qed

theorem zero_intensity_zero_emissions_witness:
  "(0::int) < 7 \<and> (7::int) < 2 ^ 1000 \<and> py_float (PyFloat (Finite 0)) = Inr (Finite 0)
   \<and> is_zero (Finite 0)
   \<and> CO2_INTENSITY ''Malta'' (Some (Finite 0)) = Inr (PyFloat (Finite 0))
   \<and> (\<exists>r. estimate Image 7 (PyFloat (Finite 0)) True = Inr (Some r)
        \<and> float_eq (emissions_g r) (Finite 0) \<and> float_lt (Finite 0) (energy_wh r))"
  using zero_intensity_zero_emissions [of 7 "PyFloat (Finite 0)" "Finite 0" "''Malta''" Image]
  by (simp add: py_float_def is_zero_def)

text \<open>
  C10. For a positive quantity (below \<open>2 ^ 1000\<close>) and an intensity \<open>\<ge> 0\<close>, every field
  of the result is non-negative, and the energy in Wh and in kWh is positive.
\<close>

theorem result_fields_nonnegative:
  assumes "0 < units" "units < 2 ^ 1000" "py_float intensity = Inr x" "float_le (Finite 0) x"
  shows "\<exists>r. estimate w units intensity True = Inr (Some r)
     \<and> float_lt (Finite 0) (energy_wh r) \<and> float_lt (Finite 0) (energy_kwh r)
     \<and> float_le (Finite 0) (energy_wh r) \<and> float_le (Finite 0) (energy_kwh r)
     \<and> float_le (Finite 0) (emissions_g r)
     \<and> float_le (Finite 0) (google_search_equiv r) \<and> float_le (Finite 0) (led_bulb_equiv r)
     \<and> float_le (Finite 0) (m_driven r) \<and> float_le (Finite 0) (coal_burned r)"
proof -
  note p = energy_pipeline [OF assms(1,2)]
  define wm where "wm = round_mag (round_mag (of_int units) * fval (ENERGY_FACTORS w))"
  define km where "km = round_mag (wm / 1000)"
  define em where "em = float_mul (Finite km) x"
  define kg where "kg = ieee_div em (Finite 1000)"
  have wm: "0 < wm" using p(4) unfolding wm_def by (rule zero_less_pow2_bound)
  have km: "0 < km" using p(6) unfolding km_def wm_def by (rule zero_less_pow2_bound)
  have em: "float_le (Finite 0) em" unfolding em_def using km assms(4) by (rule pos_mul_nonneg)
  have kg: "float_le (Finite 0) kg" unfolding kg_def using em by (rule nonneg_div_pos) simp
  have m: "float_le (Finite 0) (float_mul kg (Finite 4042))" using kg by (rule nonneg_mul_pos) simp
  have c: "float_le (Finite 0) (float_mul kg (Finite 500))" using kg by (rule nonneg_mul_pos) simp
  have g: "float_le (Finite 0) (ieee_div em (float_lit (1 / 20)))"
    unfolding float_lit_search using em by (rule nonneg_div_pos) simp
  have l: "float_le (Finite 0) (ieee_div em (Finite 15))" using em by (rule nonneg_div_pos) simp
  have w2: "float_mul (Finite (round_mag (of_int units))) (ENERGY_FACTORS w) = Finite wm"
    using p(2) by (simp add: wm_def)
  have k3: "ieee_div (Finite wm) (Finite 1000) = Finite km"
    using p(3) by (simp add: wm_def km_def)
  show ?thesis
    using estimate_Some [OF assms(1) p(1) assms(3), of w] wm km em m c g l
    by (simp add: w2 k3 em_def [symmetric] kg_def [symmetric] fval_Finite)
qed

theorem result_fields_nonnegative_witness:
  "(0::int) < 3 \<and> (3::int) < 2 ^ 1000 \<and> py_float (PyInt 475) = Inr (Finite 475)
   \<and> float_le (Finite 0) (Finite 475)
   \<and> (\<exists>r. estimate Image 3 (PyInt 475) True = Inr (Some r)
     \<and> float_lt (Finite 0) (energy_wh r) \<and> float_lt (Finite 0) (energy_kwh r)
     \<and> float_le (Finite 0) (energy_wh r) \<and> float_le (Finite 0) (energy_kwh r)
     \<and> float_le (Finite 0) (emissions_g r)
     \<and> float_le (Finite 0) (google_search_equiv r) \<and> float_le (Finite 0) (led_bulb_equiv r)
     \<and> float_le (Finite 0) (m_driven r) \<and> float_le (Finite 0) (coal_burned r))"
proof -
  have h: "py_float (PyInt 475) = Inr (Finite 475)"
    by (simp add: py_float_def float_of_int_exact)
  have n: "float_le (Finite 0) (Finite 475)" by (simp add: fval_def)
  show ?thesis
    using result_fields_nonnegative [of 3 "PyInt 475" "Finite 475" Image] h n by simp
qed

section \<open>Emissions grow with the intensity\<close>

lemma float_le_NegZero_left: "float_le NegZero b = float_le (Finite 0) b"
  by (cases b) (simp_all add: fval_def)

lemma float_le_NegZero_right: "float_le a NegZero = float_le a (Finite 0)"
  by (cases a) (simp_all add: fval_def)

lemma float_le_neginf_round: "float_le (Infinite True) (round_double s x)"
  by (simp add: round_double_def Let_def)

lemma float_le_round_posinf: "float_le (round_double s x) (Infinite False)"
  by (simp add: round_double_def Let_def)

lemma scaled_round_mono:
  assumes "0 < k" "u \<le> v"
  shows "float_le (round_double (u < 0) (k * \<bar>u\<bar>)) (round_double (v < 0) (k * \<bar>v\<bar>))"
proof -
  consider "0 \<le> u" | "u < 0" "0 \<le> v" | "v < 0" by linarith
  then show ?thesis
  proof cases
    case 1
    then have "0 \<le> k * u" "k * u \<le> k * v" using assms by simp_all
    then show ?thesis using 1 assms rd_mono_pos [of "k * u" "k * v"] by simp
  next
    case 2
    have "0 \<le> k * \<bar>u\<bar>" "0 \<le> k * \<bar>v\<bar>" using assms(1) by simp_all
    then have "float_le (round_double True (k * \<bar>u\<bar>)) (round_double False (k * \<bar>v\<bar>))"
      by (rule rd_neg_le_pos)
    then show ?thesis using 2 by simp
  next
    case 3
    have "\<bar>v\<bar> \<le> \<bar>u\<bar>" using 3 assms(2) by simp
    then have "k * \<bar>v\<bar> \<le> k * \<bar>u\<bar>" using assms(1) by simp
    moreover have "0 \<le> k * \<bar>v\<bar>" using assms(1) by simp
    ultimately have "0 \<le> k * \<bar>v\<bar>" "k * \<bar>v\<bar> \<le> k * \<bar>u\<bar>" by simp_all
    then have "float_le (round_double True (k * \<bar>u\<bar>)) (round_double True (k * \<bar>v\<bar>))"
      by (rule rd_mono_neg)
    moreover have "u < 0" using 3 assms by simp
    ultimately show ?thesis using 3 by simp
  qed
qed

lemma float_mul_pos_Finite: "0 < k \<Longrightarrow> float_mul (Finite k) (Finite u) = round_double (u < 0) (k * \<bar>u\<bar>)"
  by (simp add: float_mul_Finite)

lemma float_mul_pos_NegZero: "0 < k \<Longrightarrow> float_mul (Finite k) NegZero = NegZero"
  by (simp add: float_mul_def is_inf_def sign_def mag_def round_double_0)

lemma float_mul_pos_Infinite: "0 < k \<Longrightarrow> float_mul (Finite k) (Infinite s) = Infinite s"
  by (simp add: float_mul_def is_inf_def is_zero_def sign_def)

lemma float_mul_pos_zero: "0 < k \<Longrightarrow> float_mul (Finite k) (Finite 0) = Finite 0"
  by (simp add: float_mul_pos_Finite round_double_0)

lemma mul_pos_mono_right:
  assumes "0 < k" "float_le x y"
  shows "float_le (float_mul (Finite k) x) (float_mul (Finite k) y)"
proof (cases x)
  case (Finite u)
  show ?thesis
  proof (cases y)
    case (Finite v)
    then show ?thesis using assms \<open>x = Finite u\<close> scaled_round_mono [of k u v]
      by (simp add: float_mul_pos_Finite fval_def)
  next
    case NegZero
    then show ?thesis using assms \<open>x = Finite u\<close> scaled_round_mono [of k u 0]
      by (simp add: float_mul_pos_Finite float_mul_pos_NegZero float_le_NegZero_right
          round_double_0 fval_def)
  next
    case (Infinite t)
    then show ?thesis using assms \<open>x = Finite u\<close>
      by (simp add: float_mul_pos_Finite float_mul_pos_Infinite float_le_round_posinf)
  next
    case NaN
    then show ?thesis using assms \<open>x = Finite u\<close> by simp
  qed
next
  case NegZero
  show ?thesis
  proof (cases y)
    case (Finite v)
    then show ?thesis using assms \<open>x = NegZero\<close> scaled_round_mono [of k 0 v]
      by (simp add: float_mul_pos_Finite float_mul_pos_NegZero float_le_NegZero_left
          round_double_0 fval_def)
  next
    case NegZero
    then show ?thesis using assms \<open>x = NegZero\<close> by (simp add: float_mul_pos_NegZero fval_def)
  next
    case (Infinite t)
    then show ?thesis using assms \<open>x = NegZero\<close>
      by (simp add: float_mul_pos_NegZero float_mul_pos_Infinite)
  next
    case NaN
    then show ?thesis using assms \<open>x = NegZero\<close> by simp
  qed
next
  case (Infinite s)
  show ?thesis
  proof (cases y)
    case (Finite v)
    then show ?thesis using assms \<open>x = Infinite s\<close>
      by (simp add: float_mul_pos_Finite float_mul_pos_Infinite float_le_neginf_round)
  next
    case NegZero
    then show ?thesis using assms \<open>x = Infinite s\<close>
      by (simp add: float_mul_pos_NegZero float_mul_pos_Infinite)
  next
    case (Infinite t)
    then show ?thesis using assms \<open>x = Infinite s\<close> by (simp add: float_mul_pos_Infinite)
  next
    case NaN
    then show ?thesis using assms \<open>x = Infinite s\<close> by simp
  qed
next
  case NaN
  then show ?thesis using assms by simp
qed

lemma round_video_475: "round_double False (1230045648225566625 / 18014398509481984) = Finite (2185 / 32)"
proof -
  have "round_double False (1230045648225566625 / 18014398509481984)
      = Finite (signed False (of_int 4804865813381120 * 2 powi (max 6 (- 1022) - 52)))"
    by (rule round_double_eval) simp_all
  then show ?thesis by (simp add: signed_def)
qed

lemma round_video_475_next: "round_double False (21639191886708448123548802954035 / 316912650057057350374175801344) = Finite (2185 / 32)"
proof -
  have "round_double False (21639191886708448123548802954035 / 316912650057057350374175801344)
      = Finite (signed False (of_int 4804865813381120 * 2 powi (max 6 (- 1022) - 52)))"
    by (rule round_double_eval) simp_all
  then show ?thesis by (simp add: signed_def)
qed

lemma video_10_energy_kwh:
  assumes "py_float intensity = Inr x"
  shows "map_sum id (map_option emissions_g) (estimate Video 10 intensity True)
    = Inr (Some (float_mul (Finite (2589569785738035 / 18014398509481984)) x))"
proof -
  have q: "float_of_int 10 = Inr (Finite 10)" by (simp add: float_of_int_exact)
  have w: "float_mul (Finite 10) (float_lit (115 / 8)) = Finite (575 / 4)"
    using round_double_exact [of 575 "- 2" False]
    by (simp add: float_lit_video float_mul_Finite signed_def)
  have k: "ieee_div (Finite (575 / 4)) (Finite 1000) = Finite (2589569785738035 / 18014398509481984)"
    by (simp add: ieee_div_Finite round_23_160)
  show ?thesis
    using estimate_Some [OF _ q assms, of Video] by (simp add: w k)
qed

text \<open>
  Ten seconds of video at the intensities 475 and 475.00000000000006 (the next
  binary64 number): the larger intensity does not give larger emissions, both
  products round to 68.28125 g.
\<close>

theorem intensity_collision_counterexample:
  "float_lt (Finite 475) (Finite (8356288371097601 / 17592186044416))
   \<and> map_sum id (map_option emissions_g) (estimate Video 10 (PyFloat (Finite 475)) True)
       = Inr (Some (Finite (2185 / 32)))
   \<and> map_sum id (map_option emissions_g)
        (estimate Video 10 (PyFloat (Finite (8356288371097601 / 17592186044416))) True)
       = Inr (Some (Finite (2185 / 32)))
   \<and> \<not> float_lt (Finite (2185 / 32)) (Finite (2185 / 32))"
  by (simp add: video_10_energy_kwh py_float_def float_mul_Finite round_video_475
      round_video_475_next fval_def)

section \<open>Emissions grow with the quantity\<close>

lemma mul_nonneg_mono_left:
  assumes "0 < k1" "k1 \<le> k2" "float_le (Finite 0) x"
  shows "float_le (float_mul (Finite k1) x) (float_mul (Finite k2) x)"
proof -
  have k2: "0 < k2" using assms(1,2) by simp
  from assms(3) consider "x = NegZero" | "x = Infinite False" | v where "x = Finite v" "0 \<le> v"
    unfolding nonneg_cases by blast
  then show ?thesis
  proof cases
    case 1
    then show ?thesis using assms(1) k2 by (simp add: float_mul_pos_NegZero fval_def)
  next
    case 2
    then show ?thesis using assms(1) k2 by (simp add: float_mul_pos_Infinite)
  next
    case 3
    have "0 \<le> k1 * v" "k1 * v \<le> k2 * v" using 3(2) assms(1,2) by (simp_all add: mult_right_mono)
    then have "float_le (round_double False (k1 * v)) (round_double False (k2 * v))"
      by (rule rd_mono_pos)
    then show ?thesis using 3 assms(1) k2 by (simp add: float_mul_pos_Finite)
  qed
qed

lemma energy_kwh_mono:
  assumes "0 < q1" "q1 \<le> q2"
  shows "round_mag (round_mag (round_mag (of_int q1) * fval (ENERGY_FACTORS w)) / 1000)
       \<le> round_mag (round_mag (round_mag (of_int q2) * fval (ENERGY_FACTORS w)) / 1000)"
proof -
  let ?f = "fval (ENERGY_FACTORS w)"
  have f: "0 < ?f" using factor_value [of w] zero_less_pow2_bound [of "- 1" ?f] by simp
  have "(0::rat) \<le> of_int q1" "(of_int q1 :: rat) \<le> of_int q2" using assms by simp_all
  then have a: "round_mag (of_int q1) \<le> round_mag (of_int q2)" by (rule round_mag_mono)
  have a0: "0 \<le> round_mag (of_int q1)" using assms(1) by (intro round_mag_nonneg) simp
  have "0 \<le> round_mag (of_int q1) * ?f" "round_mag (of_int q1) * ?f \<le> round_mag (of_int q2) * ?f"
    using a a0 f by (simp_all add: mult_right_mono)
  then have b: "round_mag (round_mag (of_int q1) * ?f) \<le> round_mag (round_mag (of_int q2) * ?f)"
    by (rule round_mag_mono)
  have b0: "0 \<le> round_mag (round_mag (of_int q1) * ?f)"
    using a0 f by (intro round_mag_nonneg) simp
  have "0 \<le> round_mag (round_mag (of_int q1) * ?f) / 1000"
    "round_mag (round_mag (of_int q1) * ?f) / 1000 \<le> round_mag (round_mag (of_int q2) * ?f) / 1000"
    using b b0 by simp_all
  then show ?thesis by (rule round_mag_mono)
qed

lemma round_mag_strict:
  assumes "0 < x" "x < y" "2 powi quantum y < y - x"
  shows "round_mag x < round_mag y"
proof -
  have y: "0 < y" using assms(1,2) by simp
  have "quantum x \<le> quantum y" using assms(1,2) by (intro quantum_mono) simp_all
  then have q: "(2::rat) powi quantum x \<le> 2 powi quantum y" by (simp only: pow2_le_iff)
  have "\<bar>round_mag x - x\<bar> \<le> 2 powi quantum x / 2" using assms(1) by (rule round_mag_error)
  moreover have "\<bar>round_mag y - y\<bar> \<le> 2 powi quantum y / 2" using y by (rule round_mag_error)
  ultimately show ?thesis using q assms(3) by linarith
qed

lemma round_mag_of_int:
  assumes "0 < q" "q < 2 ^ 53"
  shows "round_mag (of_int q) = of_int q"
  using round_mag_exact [OF assms, of 0] by simp

lemma round_mag_energy_wh:
  assumes "0 < q" "q < 2 ^ 32"
  shows "round_mag (of_int q * fval (ENERGY_FACTORS w)) = of_int q * fval (ENERGY_FACTORS w)"
proof (cases w)
  case Text
  have "round_mag (of_int q * 2 powi (- 1)) = of_int q * 2 powi (- 1)"
    using assms by (intro round_mag_exact) simp_all
  then show ?thesis using Text by (simp add: float_lit_half fval_Finite)
next
  case Image
  have "round_mag (of_int (q * 5) * 2 powi 0) = of_int (q * 5) * 2 powi 0"
    using assms by (intro round_mag_exact) simp_all
  then show ?thesis using Image by (simp add: float_lit_5 fval_Finite)
next
  case Video
  have "round_mag (of_int (q * 115) * 2 powi (- 3)) = of_int (q * 115) * 2 powi (- 3)"
    using assms by (intro round_mag_exact) simp_all
  then show ?thesis using Video by (simp add: float_lit_video fval_Finite)
qed

lemma energy_kwh_gap:
  fixes q1 q2 :: int and w :: workload
  assumes "0 < q1" "q1 < q2" "q2 < 2 ^ 32"
  defines "k1 \<equiv> round_mag (round_mag (round_mag (of_int q1) * fval (ENERGY_FACTORS w)) / 1000)"
  defines "k2 \<equiv> round_mag (round_mag (round_mag (of_int q2) * fval (ENERGY_FACTORS w)) / 1000)"
  shows "k1 + 2 powi (- 12) \<le> k2" and "k2 \<le> 2 powi 27"
proof -
  let ?f = "fval (ENERGY_FACTORS w)"
  define a1 where "a1 = of_int q1 * ?f / 1000"
  define a2 where "a2 = of_int q2 * ?f / 1000"
  have q2: "0 < q2" and q1': "q1 < 2 ^ 32" using assms(1-3) by simp_all
  have e1: "k1 = round_mag a1"
    unfolding k1_def a1_def using assms(1) q1'
    by (simp add: round_mag_of_int round_mag_energy_wh)
  have e2: "k2 = round_mag a2"
    unfolding k2_def a2_def using q2 assms(3)
    by (simp add: round_mag_of_int round_mag_energy_wh)
  have flo: "1 / 2 \<le> ?f" and fhi: "?f \<le> 16" using factor_value [of w] by simp_all
  have f: "0 < ?f" using flo by simp
  have a1: "0 < a1" unfolding a1_def using assms(1) f by simp
  have "q1 + 1 \<le> q2" using assms(2) by simp
  then have "(of_int (q1 + 1) :: rat) \<le> of_int q2" by (simp only: of_int_le_iff)
  then have d: "(of_int q1 :: rat) + 1 \<le> of_int q2" by simp
  have "a2 - a1 = (of_int q2 - of_int q1) * (?f / 1000)"
    by (simp add: a1_def a2_def algebra_simps)
  also have "\<dots> \<ge> 1 * ((1 / 2) / 1000)"
    using d flo by (intro mult_mono) simp_all
  finally have gap: "1 / 2000 \<le> a2 - a1" by simp
  have a2: "0 < a2" using a1 gap by simp
  have "q2 \<le> 2 ^ 32" using assms(3) by simp
  then have "(of_int q2 :: rat) \<le> of_int (2 ^ 32)" by (simp only: of_int_le_iff)
  then have q2hi: "(of_int q2 :: rat) \<le> 2 ^ 32" by simp
  have "of_int q2 * ?f \<le> 2 ^ 32 * 16"
    using q2hi fhi f q2 by (intro mult_mono) simp_all
  then have a2hi: "a2 < 2 powi 27" unfolding a2_def by simp
  then have "ilog2 a2 < 27" using a2 by (intro ilog2_less)
  then have qa2: "quantum a2 \<le> - 26" by (simp add: quantum_def)
  have "quantum a1 \<le> quantum a2" using a1 gap by (intro quantum_mono) simp_all
  then have qa1: "quantum a1 \<le> - 26" using qa2 by simp
  have p1: "(2::rat) powi quantum a1 \<le> 2 powi (- 26)" using qa1 by (simp only: pow2_le_iff)
  have p2: "(2::rat) powi quantum a2 \<le> 2 powi (- 26)" using qa2 by (simp only: pow2_le_iff)
  have r1: "\<bar>round_mag a1 - a1\<bar> \<le> 2 powi quantum a1 / 2" using a1 by (rule round_mag_error)
  have r2: "\<bar>round_mag a2 - a2\<bar> \<le> 2 powi quantum a2 / 2" using a2 by (rule round_mag_error)
  have "round_mag a1 + (1 / 2000 - 2 powi (- 26)) \<le> round_mag a2"
    using r1 r2 p1 p2 gap by linarith
  moreover have "(2::rat) powi (- 12) \<le> 1 / 2000 - 2 powi (- 26)" by simp
  ultimately show "k1 + 2 powi (- 12) \<le> k2" unfolding e1 e2 by linarith
  show "k2 \<le> 2 powi 27"
    unfolding e2 using a2 a2hi by (intro round_mag_le_pow2) simp_all
qed

lemma emissions_strict:
  assumes "2 powi (- 11) \<le> k1" "k1 + 2 powi (- 12) \<le> k2" "k2 \<le> 2 powi 27"
    and "2 powi (- 1000) \<le> v" "v \<le> 2 powi 900"
  shows "float_lt (float_mul (Finite k1) (Finite v)) (float_mul (Finite k2) (Finite v))"
proof -
  define b1 where "b1 = k1 * v"
  define b2 where "b2 = k2 * v"
  have k1: "0 < k1" using assms(1) by (rule zero_less_pow2_bound)
  have v: "0 < v" using assms(4) by (rule zero_less_pow2_bound)
  have "0 < (2::rat) powi (- 12)" by simp
  then have k12: "k1 < k2" using assms(2) by linarith
  then have k2: "0 < k2" using k1 by simp
  have "2 powi (- 11) * 2 powi (- 1000) \<le> k1 * v"
    using assms(1,4) by (intro mult_mono) simp_all
  then have b1lo: "2 powi (- 1011) \<le> b1" by (simp add: b1_def power_int_add [symmetric])
  have "k2 * v \<le> 2 powi 27 * 2 powi 900"
    using assms(3,5) k2 v by (intro mult_mono) simp_all
  then have b2hi: "b2 \<le> 2 powi 927" by (simp add: b2_def power_int_add [symmetric])
  have b12: "b1 < b2" unfolding b1_def b2_def using k12 v by simp
  have b1: "0 < b1" using b1lo by (rule zero_less_pow2_bound)
  have b2: "0 < b2" using b1 b12 by simp
  have b2lo: "2 powi (- 1011) \<le> b2" using b1lo b12 by simp
  have b1hi: "b1 \<le> 2 powi 927" using b2hi b12 by simp
  have kk: "- 1074 \<le> (- 1011 :: int)" and jj: "(927::int) \<le> 1023" by simp_all
  have m1: "float_mul (Finite k1) (Finite v) = Finite (round_mag b1)"
    using mul_pos_range(1) [OF k1 v kk jj] b1lo b1hi by (simp add: b1_def)
  have m2: "float_mul (Finite k2) (Finite v) = Finite (round_mag b2)"
    using mul_pos_range(1) [OF k2 v kk jj] b2lo b2hi by (simp add: b2_def)
  have "- 1011 \<le> ilog2 b2" using b2 b2lo by (rule ilog2_ge)
  then have "quantum b2 = ilog2 b2 + (- 52)" by (simp add: quantum_def)
  then have "(2::rat) powi quantum b2 = 2 powi ilog2 b2 * 2 powi (- 52)"
    by (simp only: pow2_add)
  also have "\<dots> \<le> b2 * 2 powi (- 52)"
    using ilog2_bounds(1) [OF b2] by (intro mult_right_mono) simp_all
  also have "\<dots> \<le> (2 powi 27 * v) * 2 powi (- 52)"
    unfolding b2_def using assms(3) v by (intro mult_right_mono) simp_all
  also have "\<dots> = 2 powi (- 25) * v" by simp
  also have "\<dots> < 2 powi (- 12) * v" using v by simp
  also have "\<dots> \<le> (k2 - k1) * v" using assms(2) v by (intro mult_right_mono) simp_all
  also have "\<dots> = b2 - b1" by (simp add: b1_def b2_def algebra_simps)
  finally have "2 powi quantum b2 < b2 - b1" .
  with b1 b12 have "round_mag b1 < round_mag b2" by (rule round_mag_strict)
  then show ?thesis by (simp add: m1 m2 fval_Finite)
qed

lemma emissions_at_zero_intensity:
  assumes "0 < units" "units < 2 ^ 1000"
  shows "map_sum id (map_option emissions_g) (estimate w units (PyFloat (Finite 0)) True)
     = Inr (Some (Finite 0))"
proof -
  note p = energy_pipeline [OF assms]
  have i: "py_float (PyFloat (Finite 0)) = Inr (Finite 0)" by (simp add: py_float_def)
  have "0 < round_mag (round_mag (round_mag (of_int units) * fval (ENERGY_FACTORS w)) / 1000)"
    using p(6) by (rule zero_less_pow2_bound)
  then show ?thesis
    using estimate_Some [OF assms(1) p(1) i, of w]
    by (simp add: p(2,3) float_mul_pos_zero)
qed

text \<open>
  At intensity 0 the emissions of one token and of two tokens are both 0: the larger
  quantity does not give larger emissions.
\<close>

theorem quantity_zero_intensity_counterexample:
  "map_sum id (map_option emissions_g) (estimate Text 1 (PyFloat (Finite 0)) True)
     = Inr (Some (Finite 0))
   \<and> map_sum id (map_option emissions_g) (estimate Text 2 (PyFloat (Finite 0)) True)
     = Inr (Some (Finite 0))
   \<and> \<not> float_lt (Finite 0) (Finite 0)"
  by (simp add: emissions_at_zero_intensity fval_Finite)

text \<open>
  C6. For every workload type and every fixed intensity \<open>\<ge> 0\<close>, increasing the quantity
  (over positive quantities below \<open>2 ^ 1000\<close>) never decreases the emissions; and it
  strictly increases them when the quantities are below \<open>2 ^ 32\<close> and the intensity
  lies between \<open>2 powi (- 1000)\<close> and \<open>2 powi 900\<close>.
\<close>

theorem emissions_monotone_in_quantity:
  assumes "0 < q1" "q1 < q2" "q2 < 2 ^ 1000"
    and "py_float intensity = Inr x" "float_le (Finite 0) x"
  shows "\<exists>r1 r2. estimate w q1 intensity True = Inr (Some r1)
      \<and> estimate w q2 intensity True = Inr (Some r2)
      \<and> float_le (emissions_g r1) (emissions_g r2)
      \<and> (q2 < 2 ^ 32 \<and> float_le (Finite (2 powi (- 1000))) x \<and> float_le x (Finite (2 powi 900))
          \<longrightarrow> float_lt (emissions_g r1) (emissions_g r2))"
proof -
  define k1 where "k1 = round_mag (round_mag (round_mag (of_int q1) * fval (ENERGY_FACTORS w)) / 1000)"
  define k2 where "k2 = round_mag (round_mag (round_mag (of_int q2) * fval (ENERGY_FACTORS w)) / 1000)"
  have q1: "q1 < 2 ^ 1000" and q2: "0 < q2" and q12: "q1 \<le> q2" using assms(1-3) by simp_all
  note p1 = energy_pipeline [OF assms(1) q1]
  note p2 = energy_pipeline [OF q2 assms(3)]
  have k1lo: "2 powi (- 11) \<le> k1" unfolding k1_def by (rule p1(6))
  then have k1: "0 < k1" by (rule zero_less_pow2_bound)
  have k12: "k1 \<le> k2" unfolding k1_def k2_def using assms(1) q12 by (rule energy_kwh_mono)
  have weak: "float_le (float_mul (Finite k1) x) (float_mul (Finite k2) x)"
    using k1 k12 assms(5) by (rule mul_nonneg_mono_left)
  have strict: "float_lt (float_mul (Finite k1) x) (float_mul (Finite k2) x)"
    if r: "q2 < 2 ^ 32" "float_le (Finite (2 powi (- 1000))) x" "float_le x (Finite (2 powi 900))"
  proof -
    from r(2,3) obtain v where x: "x = Finite v" and v: "2 powi (- 1000) \<le> v" "v \<le> 2 powi 900"
      by (cases x) (simp_all add: fval_Finite fval_def)
    note g = energy_kwh_gap [OF assms(1,2) r(1), of w, folded k1_def k2_def]
    show ?thesis unfolding x using k1lo g v by (rule emissions_strict)
  qed
  have e1: "estimate w q1 intensity True = Inr (Some r1) \<Longrightarrow> emissions_g r1 = float_mul (Finite k1) x" for r1
    using estimate_Some [OF assms(1) p1(1) assms(4), of w] by (auto simp add: p1(2,3) k1_def)
  have e2: "estimate w q2 intensity True = Inr (Some r2) \<Longrightarrow> emissions_g r2 = float_mul (Finite k2) x" for r2
    using estimate_Some [OF q2 p2(1) assms(4), of w] by (auto simp add: p2(2,3) k2_def)
  obtain r1 where r1: "estimate w q1 intensity True = Inr (Some r1)"
    using estimate_Some [OF assms(1) p1(1) assms(4), of w] by blast
  obtain r2 where r2: "estimate w q2 intensity True = Inr (Some r2)"
    using estimate_Some [OF q2 p2(1) assms(4), of w] by blast
  show ?thesis
    using r1 r2 weak strict by (auto simp add: e1 [OF r1] e2 [OF r2])
qed

theorem emissions_monotone_in_quantity_witness:
  "(0::int) < 100 \<and> (100::int) < 200 \<and> (200::int) < 2 ^ 1000
   \<and> py_float (PyInt 366) = Inr (Finite 366) \<and> float_le (Finite 0) (Finite 366)
   \<and> (200::int) < 2 ^ 32 \<and> float_le (Finite (2 powi (- 1000))) (Finite 366)
   \<and> float_le (Finite 366) (Finite (2 powi 900))
   \<and> (\<exists>r1 r2. estimate Text 100 (PyInt 366) True = Inr (Some r1)
      \<and> estimate Text 200 (PyInt 366) True = Inr (Some r2)
      \<and> float_le (emissions_g r1) (emissions_g r2)
      \<and> float_lt (emissions_g r1) (emissions_g r2))"
proof -
  have h: "py_float (PyInt 366) = Inr (Finite 366)"
    by (simp add: py_float_def float_of_int_exact)
  have n: "float_le (Finite 0) (Finite 366)" "float_le (Finite (2 powi (- 1000))) (Finite 366)"
    "float_le (Finite 366) (Finite (2 powi 900))"
    by (simp_all add: fval_Finite)
  show ?thesis
    using emissions_monotone_in_quantity [of 100 200 "PyInt 366" "Finite 366" Text] h n
    by simp
qed

section \<open>Energy and emissions\<close>

lemma float_mul_pos_value:
  "0 < k \<Longrightarrow> float_mul (Finite k) x =
     (case x of Finite v \<Rightarrow> round_double (v < 0) (k * \<bar>v\<bar>) | NegZero \<Rightarrow> NegZero
      | Infinite s \<Rightarrow> Infinite s | NaN \<Rightarrow> NaN)"
proof (cases x)
  case NaN
  then show ?thesis by (simp add: float_mul_def)
qed (simp_all add: float_mul_pos_Finite float_mul_pos_NegZero float_mul_pos_Infinite)

lemma float_mul_value_pos:
  "0 < c \<Longrightarrow> float_mul a (Finite c) =
     (case a of Finite e \<Rightarrow> round_double (e < 0) (\<bar>e\<bar> * c) | NegZero \<Rightarrow> NegZero
      | Infinite s \<Rightarrow> Infinite s | NaN \<Rightarrow> NaN)"
  by (cases a)
    (simp_all add: float_mul_def is_inf_def is_zero_def sign_def mag_def round_double_0)

lemma ieee_div_pos_value:
  "0 < c \<Longrightarrow> ieee_div a (Finite c) =
     (case a of Finite e \<Rightarrow> round_double (e < 0) (\<bar>e\<bar> / c) | NegZero \<Rightarrow> NegZero
      | Infinite s \<Rightarrow> Infinite s | NaN \<Rightarrow> NaN)"
  by (cases a)
    (simp_all add: ieee_div_def is_inf_def sign_def mag_def round_double_0)

lemma round_mag_rel_error:
  assumes "2 powi (- 1022) \<le> x"
  shows "\<bar>round_mag x - x\<bar> \<le> x * 2 powi (- 53)"
proof -
  have x: "0 < x" using assms by (rule zero_less_pow2_bound)
  have "- 1022 \<le> ilog2 x" using x assms by (rule ilog2_ge)
  then have "quantum x = ilog2 x + (- 52)" by (simp add: quantum_def)
  then have "(2::rat) powi quantum x = 2 powi ilog2 x * 2 powi (- 52)"
    by (simp only: pow2_add)
  also have "\<dots> \<le> x * 2 powi (- 52)"
    using ilog2_bounds(1) [OF x] by (intro mult_right_mono) simp_all
  finally have "2 powi quantum x / 2 \<le> x * 2 powi (- 52) / 2" by simp
  also have "\<dots> = x * 2 powi (- 53)" by simp
  finally show ?thesis using round_mag_error [OF x] by linarith
qed

lemma factor_cases:
  "fval (ENERGY_FACTORS w) = (case w of Text \<Rightarrow> 1 / 2 | Image \<Rightarrow> 5 | Video \<Rightarrow> 115 / 8)"
  by (cases w) (simp_all add: float_lit_half float_lit_5 float_lit_video fval_Finite)

text \<open>
  C2. For every workload type, every quantity \<open>units > 0\<close> and every intensity, the
  estimate returns a result with \<open>energy_wh = units * factor\<close>, where the factor is
  \<open>0.5\<close> for Text, \<open>5.0\<close> for Image and \<open>14.375\<close> for Video,
  \<open>energy_kwh = energy_wh / 1000\<close> and \<open>emissions_g = energy_kwh * intensity\<close>. Each
  field is Python's operation on these operands, and its value is the exact product or
  quotient rounded to binary64: \<open>energy_wh\<close> is exactly \<open>units * factor\<close> for quantities
  below \<open>2 ^ 32\<close>, \<open>energy_kwh\<close> is within one part in \<open>2 ^ 53\<close> of \<open>energy_wh / 1000\<close>,
  and so is \<open>emissions_g\<close> of \<open>energy_kwh * intensity\<close> for an intensity between
  \<open>2 powi (- 1000)\<close> and \<open>2 powi 19\<close>. A quantity is a count of tokens, images or
  seconds; every quantity below \<open>2 ^ 1000\<close> is covered. The intensity is any float, or
  an \<open>int\<close> that converts to one.
\<close>

theorem estimate_energy_and_emissions:
  assumes "0 < units" "units < 2 ^ 1000" "py_float intensity = Inr x"
  shows "\<exists>r. estimate w units intensity True = Inr (Some r)
      \<and> int_mul_float units
           (case w of Text \<Rightarrow> Finite (1 / 2) | Image \<Rightarrow> Finite 5 | Video \<Rightarrow> Finite (115 / 8))
          = Inr (energy_wh r)
      \<and> float_div_int (energy_wh r) 1000 = Inr (energy_kwh r)
      \<and> float_mul_num (energy_kwh r) intensity = Inr (emissions_g r)
      \<and> energy_wh r = Finite (round_mag (round_mag (of_int units)
            * (case w of Text \<Rightarrow> 1 / 2 | Image \<Rightarrow> 5 | Video \<Rightarrow> 115 / 8)))
      \<and> (units < 2 ^ 32 \<longrightarrow> energy_wh r
            = Finite (of_int units * (case w of Text \<Rightarrow> 1 / 2 | Image \<Rightarrow> 5 | Video \<Rightarrow> 115 / 8)))
      \<and> energy_kwh r = Finite (round_mag (fval (energy_wh r) / 1000))
      \<and> \<bar>fval (energy_kwh r) - fval (energy_wh r) / 1000\<bar>
          \<le> fval (energy_wh r) / 1000 * 2 powi (- 53)
      \<and> emissions_g r =
          (case x of Finite v \<Rightarrow> round_double (v < 0) (fval (energy_kwh r) * \<bar>v\<bar>)
           | NegZero \<Rightarrow> NegZero | Infinite s \<Rightarrow> Infinite s | NaN \<Rightarrow> NaN)
      \<and> (float_le (Finite (2 powi (- 1000))) x \<and> float_le x (Finite (2 powi 19))
          \<longrightarrow> \<bar>fval (emissions_g r) - fval (energy_kwh r) * fval x\<bar>
              \<le> fval (energy_kwh r) * fval x * 2 powi (- 53))"
proof -
  let ?F = "case w of Text \<Rightarrow> 1 / 2 | Image \<Rightarrow> 5 | Video \<Rightarrow> 115 / (8::rat)"
  note p = energy_pipeline [OF assms(1,2)]
  define wm where "wm = round_mag (round_mag (of_int units) * fval (ENERGY_FACTORS w))"
  define km where "km = round_mag (wm / 1000)"
  have w2: "float_mul (Finite (round_mag (of_int units))) (ENERGY_FACTORS w) = Finite wm"
    using p(2) by (simp add: wm_def)
  have k3: "ieee_div (Finite wm) (Finite 1000) = Finite km"
    using p(3) by (simp add: wm_def km_def)
  have wlo: "2 powi (- 1) \<le> wm" unfolding wm_def by (rule p(4))
  have klo: "2 powi (- 11) \<le> km" and khi: "km \<le> 2 powi 1004"
    unfolding km_def wm_def by (rule p(6), rule p(7))
  have km: "0 < km" using klo by (rule zero_less_pow2_bound)
  have f: "ENERGY_FACTORS w
      = (case w of Text \<Rightarrow> Finite (1 / 2) | Image \<Rightarrow> Finite 5 | Video \<Rightarrow> Finite (115 / 8))"
    by (cases w) (simp_all add: float_lit_half float_lit_5 float_lit_video)
  have a: "wm = round_mag (round_mag (of_int units) * ?F)"
    unfolding wm_def factor_cases ..
  have b: "wm = of_int units * ?F" if "units < 2 ^ 32"
  proof -
    have "units < 2 ^ 53" using that by simp
    then have "wm = of_int units * fval (ENERGY_FACTORS w)"
      unfolding wm_def using assms(1) that
      by (simp add: round_mag_of_int round_mag_energy_wh)
    then show ?thesis by (simp only: factor_cases)
  qed
  have c: "\<bar>km - wm / 1000\<bar> \<le> wm / 1000 * 2 powi (- 53)"
  proof -
    have "(2::rat) powi (- 1022) * 1000 \<le> 2 powi (- 1)" by simp
    then have "2 powi (- 1022) \<le> wm / 1000" using wlo by (simp add: field_simps)
    then show ?thesis unfolding km_def by (rule round_mag_rel_error)
  qed
  have d: "\<bar>fval (float_mul (Finite km) x) - km * fval x\<bar> \<le> km * fval x * 2 powi (- 53)"
    if r: "float_le (Finite (2 powi (- 1000))) x" "float_le x (Finite (2 powi 19))"
  proof -
    from r obtain v where x: "x = Finite v" and v: "2 powi (- 1000) \<le> v" "v \<le> 2 powi 19"
      by (cases x) (simp_all add: fval_def)
    have vpos: "0 < v" using v(1) by (rule zero_less_pow2_bound)
    have "2 powi (- 11) * 2 powi (- 1000) \<le> km * v"
      using klo v(1) by (intro mult_mono) simp_all
    then have lo: "2 powi (- 1011) \<le> km * v" by (simp add: power_int_add [symmetric])
    have "km * v \<le> 2 powi 1004 * 2 powi 19"
      using khi v(2) km vpos by (intro mult_mono) simp_all
    then have hi: "km * v \<le> 2 powi 1023" by (simp add: power_int_add [symmetric])
    have kk: "- 1074 \<le> (- 1011 :: int)" and jj: "(1023::int) \<le> 1023" by simp_all
    have m: "float_mul (Finite km) (Finite v) = Finite (round_mag (km * v))"
      by (rule mul_pos_range(1) [OF km vpos kk jj lo hi])
    have "(2::rat) powi (- 1022) \<le> 2 powi (- 1011)" by (simp only: pow2_le_iff)
    then have "2 powi (- 1022) \<le> km * v" using lo by linarith
    then have "\<bar>round_mag (km * v) - km * v\<bar> \<le> km * v * 2 powi (- 53)"
      by (rule round_mag_rel_error)
    then show ?thesis by (simp add: x m fval_Finite)
  qed
  have "\<exists>r. estimate w units intensity True = Inr (Some r) \<and> energy_wh r = Finite wm
      \<and> energy_kwh r = Finite km \<and> emissions_g r = float_mul (Finite km) x"
    using estimate_Some [OF assms(1) p(1) assms(3), of w] by (simp add: w2 k3)
  then obtain r where r: "estimate w units intensity True = Inr (Some r)"
    and e1: "energy_wh r = Finite wm" and e2: "energy_kwh r = Finite km"
    and e3: "emissions_g r = float_mul (Finite km) x" by blast
  have o1: "int_mul_float units
      (case w of Text \<Rightarrow> Finite (1 / 2) | Image \<Rightarrow> Finite 5 | Video \<Rightarrow> Finite (115 / 8))
      = Inr (energy_wh r)"
    unfolding f [symmetric] by (simp add: int_mul_float_def p(1) bind_err_def w2 e1)
  have o2: "float_div_int (energy_wh r) 1000 = Inr (energy_kwh r)"
    by (simp add: float_div_int_pos e1 e2 k3)
  have o3: "float_mul_num (energy_kwh r) intensity = Inr (emissions_g r)"
    by (simp add: float_mul_num_def assms(3) bind_err_def e2 e3)
  have v1: "energy_wh r = Finite (round_mag (round_mag (of_int units) * ?F))"
    unfolding e1 using a by simp
  have v2: "units < 2 ^ 32 \<longrightarrow> energy_wh r = Finite (of_int units * ?F)"
    unfolding e1 using b by simp
  have v3: "energy_kwh r = Finite (round_mag (fval (energy_wh r) / 1000))"
    unfolding e1 e2 by (simp add: fval_Finite km_def)
  have v4: "\<bar>fval (energy_kwh r) - fval (energy_wh r) / 1000\<bar>
      \<le> fval (energy_wh r) / 1000 * 2 powi (- 53)"
    unfolding e1 e2 fval_Finite by (rule c)
  have v5: "emissions_g r =
      (case x of Finite v \<Rightarrow> round_double (v < 0) (fval (energy_kwh r) * \<bar>v\<bar>)
       | NegZero \<Rightarrow> NegZero | Infinite s \<Rightarrow> Infinite s | NaN \<Rightarrow> NaN)"
    unfolding e2 e3 fval_Finite using km by (rule float_mul_pos_value)
  have v6: "float_le (Finite (2 powi (- 1000))) x \<and> float_le x (Finite (2 powi 19))
      \<longrightarrow> \<bar>fval (emissions_g r) - fval (energy_kwh r) * fval x\<bar>
          \<le> fval (energy_kwh r) * fval x * 2 powi (- 53)"
    unfolding e2 e3 fval_Finite using d by blast
  from r o1 o2 o3 v1 v2 v3 v4 v5 v6 show ?thesis by blast
qed

theorem estimate_energy_and_emissions_witness:
  "(0::int) < 10 \<and> (10::int) < 2 ^ 1000 \<and> py_float (PyInt 366) = Inr (Finite 366)
   \<and> (10::int) < 2 ^ 32
   \<and> float_le (Finite (2 powi (- 1000))) (Finite 366) \<and> float_le (Finite 366) (Finite (2 powi 19))
   \<and> (\<exists>r. estimate Video 10 (PyInt 366) True = Inr (Some r)
      \<and> int_mul_float 10 (Finite (115 / 8)) = Inr (energy_wh r)
      \<and> float_div_int (energy_wh r) 1000 = Inr (energy_kwh r)
      \<and> float_mul_num (energy_kwh r) (PyInt 366) = Inr (emissions_g r)
      \<and> energy_wh r = Finite (10 * (115 / 8))
      \<and> energy_kwh r = Finite (round_mag (fval (energy_wh r) / 1000))
      \<and> \<bar>fval (energy_kwh r) - fval (energy_wh r) / 1000\<bar>
          \<le> fval (energy_wh r) / 1000 * 2 powi (- 53)
      \<and> emissions_g r = round_double False (fval (energy_kwh r) * 366)
      \<and> \<bar>fval (emissions_g r) - fval (energy_kwh r) * 366\<bar>
          \<le> fval (energy_kwh r) * 366 * 2 powi (- 53))"
proof -
  have h: "py_float (PyInt 366) = Inr (Finite 366)"
    by (simp add: py_float_def float_of_int_exact)
  have n: "float_le (Finite (2 powi (- 1000))) (Finite 366)"
    "float_le (Finite 366) (Finite (2 powi 19))"
    by (simp_all add: fval_Finite)
  have u: "(0::int) < 10" "(10::int) < 2 ^ 1000" "(10::int) < 2 ^ 32" by simp_all
  from estimate_energy_and_emissions [OF u(1,2) h, of Video, unfolded workload.case double.case]
  obtain r
    where "estimate Video 10 (PyInt 366) True = Inr (Some r)"
      and "int_mul_float 10 (Finite (115 / 8)) = Inr (energy_wh r)"
      and "float_div_int (energy_wh r) 1000 = Inr (energy_kwh r)"
      and "float_mul_num (energy_kwh r) (PyInt 366) = Inr (emissions_g r)"
      and "(10::int) < 2 ^ 32 \<longrightarrow> energy_wh r = Finite (of_int 10 * (115 / 8))"
      and "energy_kwh r = Finite (round_mag (fval (energy_wh r) / 1000))"
      and "\<bar>fval (energy_kwh r) - fval (energy_wh r) / 1000\<bar>
          \<le> fval (energy_wh r) / 1000 * 2 powi (- 53)"
      and "emissions_g r = round_double (366 < (0::rat)) (fval (energy_kwh r) * \<bar>366\<bar>)"
      and "float_le (Finite (2 powi (- 1000))) (Finite 366) \<and> float_le (Finite 366) (Finite (2 powi 19))
          \<longrightarrow> \<bar>fval (emissions_g r) - fval (energy_kwh r) * fval (Finite 366)\<bar>
              \<le> fval (energy_kwh r) * fval (Finite 366) * 2 powi (- 53)"
    by blast
  then have "estimate Video 10 (PyInt 366) True = Inr (Some r)
      \<and> int_mul_float 10 (Finite (115 / 8)) = Inr (energy_wh r)
      \<and> float_div_int (energy_wh r) 1000 = Inr (energy_kwh r)
      \<and> float_mul_num (energy_kwh r) (PyInt 366) = Inr (emissions_g r)
      \<and> energy_wh r = Finite (10 * (115 / 8))
      \<and> energy_kwh r = Finite (round_mag (fval (energy_wh r) / 1000))
      \<and> \<bar>fval (energy_kwh r) - fval (energy_wh r) / 1000\<bar>
          \<le> fval (energy_wh r) / 1000 * 2 powi (- 53)
      \<and> emissions_g r = round_double False (fval (energy_kwh r) * 366)
      \<and> \<bar>fval (emissions_g r) - fval (energy_kwh r) * 366\<bar>
          \<le> fval (energy_kwh r) * 366 * 2 powi (- 53)"
    using n u(3) by (simp add: fval_Finite)
  then show ?thesis using h n u by blast
qed

section \<open>Equivalence figures\<close>

text \<open>
  C3. In every result of the estimate the four equivalence figures are computed from
  \<open>emissions_g\<close> exactly as written: \<open>google_search_equiv = emissions_g / 0.05\<close>,
  \<open>led_bulb_equiv = emissions_g / 15\<close>, \<open>m_driven = (emissions_g / 1000) * 4042\<close> and
  \<open>coal_burned = (emissions_g / 1000) * 500\<close>. Each figure is Python's operation on
  these operands, and its value is the exact quotient or product rounded to binary64,
  where \<open>0.05\<close> is the float \<open>3602879701896397 / 2 ^ 56\<close>; a zero, an infinity and a
  NaN pass through unchanged.
\<close>

theorem equivalence_figures:
  assumes "estimate w units intensity submit = Inr (Some r)"
  shows "float_truediv (emissions_g r) (float_lit (5 / 100)) = Inr (google_search_equiv r)
      \<and> float_div_int (emissions_g r) 15 = Inr (led_bulb_equiv r)
      \<and> float_div_int (emissions_g r) 1000 = Inr (co2_kg r)
      \<and> float_mul_int (co2_kg r) 4042 = Inr (m_driven r)
      \<and> float_mul_int (co2_kg r) 500 = Inr (coal_burned r)
      \<and> float_lit (5 / 100) = Finite (3602879701896397 / 2 ^ 56)
      \<and> google_search_equiv r =
          (case emissions_g r of
             Finite e \<Rightarrow> round_double (e < 0) (\<bar>e\<bar> / (3602879701896397 / 2 ^ 56))
           | NegZero \<Rightarrow> NegZero | Infinite s \<Rightarrow> Infinite s | NaN \<Rightarrow> NaN)
      \<and> led_bulb_equiv r =
          (case emissions_g r of Finite e \<Rightarrow> round_double (e < 0) (\<bar>e\<bar> / 15)
           | NegZero \<Rightarrow> NegZero | Infinite s \<Rightarrow> Infinite s | NaN \<Rightarrow> NaN)
      \<and> co2_kg r =
          (case emissions_g r of Finite e \<Rightarrow> round_double (e < 0) (\<bar>e\<bar> / 1000)
           | NegZero \<Rightarrow> NegZero | Infinite s \<Rightarrow> Infinite s | NaN \<Rightarrow> NaN)
      \<and> m_driven r =
          (case co2_kg r of Finite k \<Rightarrow> round_double (k < 0) (\<bar>k\<bar> * 4042)
           | NegZero \<Rightarrow> NegZero | Infinite s \<Rightarrow> Infinite s | NaN \<Rightarrow> NaN)
      \<and> coal_burned r =
          (case co2_kg r of Finite k \<Rightarrow> round_double (k < 0) (\<bar>k\<bar> * 500)
           | NegZero \<Rightarrow> NegZero | Infinite s \<Rightarrow> Infinite s | NaN \<Rightarrow> NaN)"
proof -
  have ops: "float_truediv (emissions_g r) (float_lit (5 / 100)) = Inr (google_search_equiv r)
      \<and> float_div_int (emissions_g r) 15 = Inr (led_bulb_equiv r)
      \<and> float_div_int (emissions_g r) 1000 = Inr (co2_kg r)
      \<and> float_mul_int (co2_kg r) 4042 = Inr (m_driven r)
      \<and> float_mul_int (co2_kg r) 500 = Inr (coal_burned r)"
    using assms
    by (auto simp add: estimate_def bind_err_def float_div_int_pos float_mul_int_pos
        float_truediv_search split: if_splits sum.splits)
  have lit: "float_lit (5 / 100) = Finite (3602879701896397 / 2 ^ 56)"
    by (simp add: float_lit_search)
  have g: "google_search_equiv r = ieee_div (emissions_g r) (Finite (3602879701896397 / 2 ^ 56))"
    using ops by (simp add: float_lit_search float_truediv_def is_zero_def)
  have l: "led_bulb_equiv r = ieee_div (emissions_g r) (Finite 15)"
    and k: "co2_kg r = ieee_div (emissions_g r) (Finite 1000)"
    and m: "m_driven r = float_mul (co2_kg r) (Finite 4042)"
    and c: "coal_burned r = float_mul (co2_kg r) (Finite 500)"
    using ops by (simp_all add: float_div_int_pos float_mul_int_pos)
  have pos: "(0::rat) < 3602879701896397 / 2 ^ 56" "(0::rat) < 15" "(0::rat) < 1000"
    "(0::rat) < 4042" "(0::rat) < 500" by simp_all
  note v = g [unfolded ieee_div_pos_value [OF pos(1)]] l [unfolded ieee_div_pos_value [OF pos(2)]]
    k [unfolded ieee_div_pos_value [OF pos(3)]] m [unfolded float_mul_value_pos [OF pos(4)]]
    c [unfolded float_mul_value_pos [OF pos(5)]]
  from ops lit v show ?thesis by blast
qed

theorem equivalence_figures_witness:
  "\<exists>r. estimate Video 10 (PyInt 366) True = Inr (Some r)
      \<and> emissions_g r = Finite (3702275553047347 / 70368744177664)
      \<and> float_truediv (emissions_g r) (float_lit (5 / 100)) = Inr (google_search_equiv r)
      \<and> float_div_int (emissions_g r) 15 = Inr (led_bulb_equiv r)
      \<and> float_div_int (emissions_g r) 1000 = Inr (co2_kg r)
      \<and> float_mul_int (co2_kg r) 4042 = Inr (m_driven r)
      \<and> float_mul_int (co2_kg r) 500 = Inr (coal_burned r)
      \<and> google_search_equiv r =
          (case emissions_g r of
             Finite e \<Rightarrow> round_double (e < 0) (\<bar>e\<bar> / (3602879701896397 / 2 ^ 56))
           | NegZero \<Rightarrow> NegZero | Infinite s \<Rightarrow> Infinite s | NaN \<Rightarrow> NaN)
      \<and> led_bulb_equiv r =
          (case emissions_g r of Finite e \<Rightarrow> round_double (e < 0) (\<bar>e\<bar> / 15)
           | NegZero \<Rightarrow> NegZero | Infinite s \<Rightarrow> Infinite s | NaN \<Rightarrow> NaN)
      \<and> co2_kg r =
          (case emissions_g r of Finite e \<Rightarrow> round_double (e < 0) (\<bar>e\<bar> / 1000)
           | NegZero \<Rightarrow> NegZero | Infinite s \<Rightarrow> Infinite s | NaN \<Rightarrow> NaN)
      \<and> m_driven r =
          (case co2_kg r of Finite k \<Rightarrow> round_double (k < 0) (\<bar>k\<bar> * 4042)
           | NegZero \<Rightarrow> NegZero | Infinite s \<Rightarrow> Infinite s | NaN \<Rightarrow> NaN)
      \<and> coal_burned r =
          (case co2_kg r of Finite k \<Rightarrow> round_double (k < 0) (\<bar>k\<bar> * 500)
           | NegZero \<Rightarrow> NegZero | Infinite s \<Rightarrow> Infinite s | NaN \<Rightarrow> NaN)"
proof -
  from video_10_366 obtain r where r: "estimate Video 10 (PyInt 366) True = Inr (Some r)"
    and e: "emissions_g r = Finite (3702275553047347 / 70368744177664)" by blast
  from equivalence_figures [OF r] r e show ?thesis by blast
qed

section \<open>How far the emissions grow with the intensity\<close>

lemma emissions_strict_intensity:
  assumes "2 powi (- 11) \<le> k" "k \<le> 2 powi 1004"
    and "2 powi (- 1000) \<le> v1" "v2 \<le> 2 powi 19" "v1 < v2 * (1 - 2 powi (- 52))"
  shows "float_lt (float_mul (Finite k) (Finite v1)) (float_mul (Finite k) (Finite v2))"
proof -
  define b1 where "b1 = k * v1"
  define b2 where "b2 = k * v2"
  have k: "0 < k" using assms(1) by (rule zero_less_pow2_bound)
  have v1: "0 < v1" using assms(3) by (rule zero_less_pow2_bound)
  have "0 < v2 * (1 - 2 powi (- 52))" using v1 assms(5) by simp
  then have v2: "0 < v2" by (simp add: zero_less_mult_iff)
  have gap: "v2 * 2 powi (- 52) < v2 - v1" using assms(5) by (simp add: algebra_simps)
  have "0 < v2 * 2 powi (- 52)" using v2 by simp
  then have v12: "v1 < v2" using gap by linarith
  have "2 powi (- 11) * 2 powi (- 1000) \<le> k * v1"
    using assms(1,3) by (intro mult_mono) simp_all
  then have b1lo: "2 powi (- 1011) \<le> b1" by (simp add: b1_def power_int_add [symmetric])
  have "k * v2 \<le> 2 powi 1004 * 2 powi 19"
    using assms(2,4) k v2 by (intro mult_mono) simp_all
  then have b2hi: "b2 \<le> 2 powi 1023" by (simp add: b2_def power_int_add [symmetric])
  have b12: "b1 < b2" unfolding b1_def b2_def using v12 k by simp
  have b1: "0 < b1" using b1lo by (rule zero_less_pow2_bound)
  have b2: "0 < b2" using b1 b12 by simp
  have b2lo: "2 powi (- 1011) \<le> b2" using b1lo b12 by simp
  have b1hi: "b1 \<le> 2 powi 1023" using b2hi b12 by simp
  have kk: "- 1074 \<le> (- 1011 :: int)" and jj: "(1023::int) \<le> 1023" by simp_all
  have m1: "float_mul (Finite k) (Finite v1) = Finite (round_mag b1)"
    using mul_pos_range(1) [OF k v1 kk jj] b1lo b1hi by (simp add: b1_def)
  have m2: "float_mul (Finite k) (Finite v2) = Finite (round_mag b2)"
    using mul_pos_range(1) [OF k v2 kk jj] b2lo b2hi by (simp add: b2_def)
  have "- 1011 \<le> ilog2 b2" using b2 b2lo by (rule ilog2_ge)
  then have "quantum b2 = ilog2 b2 + (- 52)" by (simp add: quantum_def)
  then have "(2::rat) powi quantum b2 = 2 powi ilog2 b2 * 2 powi (- 52)"
    by (simp only: pow2_add)
  also have "\<dots> \<le> b2 * 2 powi (- 52)"
    using ilog2_bounds(1) [OF b2] by (intro mult_right_mono) simp_all
  also have "\<dots> = k * (v2 * 2 powi (- 52))" by (simp add: b2_def)
  also have "\<dots> < k * (v2 - v1)" using gap k by (intro mult_strict_left_mono)
  also have "\<dots> = b2 - b1" by (simp add: b1_def b2_def algebra_simps)
  finally have "2 powi quantum b2 < b2 - b1" .
  with b1 b12 have "round_mag b1 < round_mag b2" by (rule round_mag_strict)
  then show ?thesis by (simp add: m1 m2 fval_Finite)
qed

text \<open>
  C7. For every workload type and every fixed quantity \<open>units > 0\<close> (below \<open>2 ^ 1000\<close>),
  increasing the intensity never decreases the emissions, and it strictly increases
  them when the two intensities lie between \<open>2 powi (- 1000)\<close> and \<open>2 powi 19\<close> and are
  more than one rounding step apart: the smaller is below the larger times
  \<open>1 - 2 powi (- 52)\<close>. Intensities closer than that may give the same emissions.
\<close>

theorem emissions_monotone_in_intensity:
  assumes "0 < units" "units < 2 ^ 1000"
    and "py_float i1 = Inr x1" "py_float i2 = Inr x2" "float_le x1 x2"
  shows "\<exists>r1 r2. estimate w units i1 True = Inr (Some r1)
      \<and> estimate w units i2 True = Inr (Some r2)
      \<and> float_le (emissions_g r1) (emissions_g r2)
      \<and> (float_le (Finite (2 powi (- 1000))) x1 \<and> float_le x2 (Finite (2 powi 19))
           \<and> fval x1 < fval x2 * (1 - 2 powi (- 52))
          \<longrightarrow> float_lt (emissions_g r1) (emissions_g r2))"
proof -
  note p = energy_pipeline [OF assms(1,2)]
  define km where "km = round_mag (round_mag (round_mag (of_int units) * fval (ENERGY_FACTORS w)) / 1000)"
  have klo: "2 powi (- 11) \<le> km" and khi: "km \<le> 2 powi 1004"
    unfolding km_def by (rule p(6), rule p(7))
  have km: "0 < km" using klo by (rule zero_less_pow2_bound)
  have weak: "float_le (float_mul (Finite km) x1) (float_mul (Finite km) x2)"
    using km assms(5) by (rule mul_pos_mono_right)
  have strict: "float_lt (float_mul (Finite km) x1) (float_mul (Finite km) x2)"
    if r: "float_le (Finite (2 powi (- 1000))) x1" "float_le x2 (Finite (2 powi 19))"
      "fval x1 < fval x2 * (1 - 2 powi (- 52))"
  proof -
    from r(1) assms(5) r(2) obtain v1 where x1: "x1 = Finite v1" and v1: "2 powi (- 1000) \<le> v1"
      by (cases x1; cases x2) (simp_all add: fval_def)
    have "0 < v1" using v1 by (rule zero_less_pow2_bound)
    with r(2) assms(5) obtain v2 where x2: "x2 = Finite v2" and v2: "v2 \<le> 2 powi 19"
      unfolding x1 by (cases x2) (simp_all add: fval_Finite fval_def)
    have "v1 < v2 * (1 - 2 powi (- 52))" using r(3) by (simp add: x1 x2 fval_Finite)
    with klo khi v1 v2 show ?thesis unfolding x1 x2 by (rule emissions_strict_intensity)
  qed
  show ?thesis
    using estimate_Some [OF assms(1) p(1) assms(3), of w]
      estimate_Some [OF assms(1) p(1) assms(4), of w] weak strict
    by (simp add: p(2,3) km_def)
qed

theorem emissions_monotone_in_intensity_witness:
  "(0::int) < 10 \<and> (10::int) < 2 ^ 1000
   \<and> py_float (PyInt 366) = Inr (Finite 366) \<and> py_float (PyFloat (Finite 475)) = Inr (Finite 475)
   \<and> float_le (Finite 366) (Finite 475)
   \<and> float_le (Finite (2 powi (- 1000))) (Finite 366) \<and> float_le (Finite 475) (Finite (2 powi 19))
   \<and> fval (Finite 366) < fval (Finite 475) * (1 - 2 powi (- 52))
   \<and> (\<exists>r1 r2. estimate Video 10 (PyInt 366) True = Inr (Some r1)
      \<and> estimate Video 10 (PyFloat (Finite 475)) True = Inr (Some r2)
      \<and> float_le (emissions_g r1) (emissions_g r2)
      \<and> float_lt (emissions_g r1) (emissions_g r2))"
proof -
  have h: "py_float (PyInt 366) = Inr (Finite 366)"
    "py_float (PyFloat (Finite 475)) = Inr (Finite 475)"
    by (simp_all add: py_float_def float_of_int_exact)
  have n: "float_le (Finite 366) (Finite 475)"
    "float_le (Finite (2 powi (- 1000))) (Finite 366)" "float_le (Finite 475) (Finite (2 powi 19))"
    "fval (Finite 366) < fval (Finite 475) * (1 - 2 powi (- 52))"
    by (simp_all add: fval_Finite)
  show ?thesis
    using emissions_monotone_in_intensity
      [of 10 "PyInt 366" "Finite 366" "PyFloat (Finite 475)" "Finite 475" Video] h n
    by simp
qed

end
